theory Spec2Isabelle
  imports Main
begin

section \<open>Identifiers and faults\<close>

text \<open>
  The identifiers of the runtime (\<open>node_id\<close>, \<open>buffer_id\<close>, \<open>task_id\<close>,
  \<open>command_id\<close>, \<open>chunk_id\<close>) and all sizes (\<open>size_t\<close>) are natural numbers.
  The arithmetic of \<open>split_equal\<close> never leaves the interval between 0 and the range it
  splits (lemma \<open>split_equal_1_bounded\<close> below), so no operation on sizes wraps around.
  Chunk counts come from the number of nodes, which the constructor of the runtime
  reads from the transport as an \<open>int\<close>; the loop counters over chunks and nodes
  (\<open>unsigned\<close>, \<open>int\<close>) are therefore taken as wide enough for their bounds.

  An assertion that fails, an exception of a container (\<open>at\<close> on a missing key) and
  a thrown \<open>std::runtime_error\<close> are values of type \<open>fault\<close>; a function that can
  fail returns \<open>fault + 'a\<close>.
\<close>

type_synonym node_id = nat
type_synonym buffer_id = nat
type_synonym task_id = nat
type_synonym command_id = nat
type_synonym chunk_id = nat

datatype fault =
    Assertion_failed
  | Out_of_range
  | Runtime_error string
  | Bad_get
  | No_such_command
  | Dangling_handle

section \<open>Splitting a task into chunks (runtime.cc, split_equal)\<close>

text \<open>
  \<open>subrange<Dims>\<close> has the fields \<open>start\<close>, \<open>range\<close> and \<open>global_size\<close>; the
  coordinate type is \<open>nat\<close> for one dimension, a pair for two and a triple for three.
\<close>

record 'a subrange =
  sr_start :: 'a
  sr_range :: 'a
  sr_global_size :: 'a

text \<open>
  The loop of the one-dimensional \<open>split_equal\<close>: \<open>i\<close> is the counter, \<open>chunk\<close> the
  running chunk and \<open>result\<close> the vector built so far. The last round adds the
  remainder to the range of \<open>result[i]\<close>.
\<close>

function split_equal_loop ::
  "nat subrange \<Rightarrow> nat \<Rightarrow> nat \<Rightarrow> nat subrange \<Rightarrow> nat subrange list \<Rightarrow> nat subrange list" where
  "split_equal_loop sr num_chunks i chunk result =
     (if i < num_chunks then
        let result1 = result @ [chunk];
            chunk1 = chunk\<lparr>sr_start := sr_start chunk + sr_range chunk\<rparr>;
            result2 =
              (if i = num_chunks - 1
               then result1[i := (result1 ! i)\<lparr>sr_range := sr_range (result1 ! i) + sr_range sr mod num_chunks\<rparr>]
               else result1)
        in split_equal_loop sr num_chunks (i + 1) chunk1 result2
      else result)"
  by pat_completeness auto
termination
  by (relation "measure (\<lambda>(sr, num_chunks, i, chunk, result). num_chunks - i)") auto

declare split_equal_loop.simps [simp del]

definition split_equal_1 :: "nat subrange \<Rightarrow> nat \<Rightarrow> fault + nat subrange list" where
  "split_equal_1 sr num_chunks =
     (if num_chunks > 0 then
        Inr (split_equal_loop sr num_chunks 0
               \<lparr>sr_start = 0, sr_range = sr_range sr div num_chunks, sr_global_size = sr_global_size sr\<rparr> [])
      else Inl Assertion_failed)"

text \<open>Two dimensions: the rows (dimension 0) are split, the columns are kept.\<close>

definition split_equal_2 :: "(nat \<times> nat) subrange \<Rightarrow> nat \<Rightarrow> fault + (nat \<times> nat) subrange list" where
  "split_equal_2 sr num_chunks =
     (case split_equal_1
             \<lparr>sr_start = fst (sr_start sr), sr_range = fst (sr_range sr),
              sr_global_size = fst (sr_global_size sr)\<rparr> num_chunks of
        Inl e \<Rightarrow> Inl e
      | Inr rows \<Rightarrow>
          Inr (map (\<lambda>row. \<lparr>sr_start = (sr_start row, snd (sr_start sr)),
                            sr_range = (sr_range row, snd (sr_range sr)),
                            sr_global_size = sr_global_size sr\<rparr>) rows))"

text \<open>Three dimensions: the function throws.\<close>

definition split_equal_3 ::
  "(nat \<times> nat \<times> nat) subrange \<Rightarrow> nat \<Rightarrow> fault + (nat \<times> nat \<times> nat) subrange list" where
  "split_equal_3 sr num_chunks = Inl (Runtime_error ''3D split_equal NYI'')"

text \<open>The index sets a chunk covers.\<close>

definition cells_1 :: "nat subrange \<Rightarrow> nat set" where
  "cells_1 c = {sr_start c ..< sr_start c + sr_range c}"

definition cells_2 :: "(nat \<times> nat) subrange \<Rightarrow> (nat \<times> nat) set" where
  "cells_2 c = {fst (sr_start c) ..< fst (sr_start c) + fst (sr_range c)}
             \<times> {snd (sr_start c) ..< snd (sr_start c) + snd (sr_range c)}"

text \<open>The closed form of chunk \<open>j\<close> of \<open>n\<close> over a range \<open>r\<close>, used in the proofs.\<close>

definition nth_chunk :: "nat \<Rightarrow> nat \<Rightarrow> nat \<Rightarrow> nat \<Rightarrow> nat subrange" where
  "nth_chunk g r n j =
     \<lparr>sr_start = j * (r div n),
      sr_range = (if j = n - 1 then r div n + r mod n else r div n),
      sr_global_size = g\<rparr>"


section \<open>Assigning chunks to nodes (runtime.cc, assign_chunks_to_nodes)\<close>

datatype access_mode =
    Mode_read
  | Mode_write
  | Mode_read_write
  | Mode_discard_write
  | Mode_discard_read_write
  | Mode_atomic

text \<open>
  \<open>std::set_intersection\<close> on two ranges: the merge of the standard library, which
  walks both ranges once and relies on both being sorted. The first range is the
  \<open>std::set\<close> of free nodes, the second the \<open>std::unordered_set\<close> of source nodes in
  its iteration order.
\<close>

fun set_intersection :: "nat list \<Rightarrow> nat list \<Rightarrow> nat list" where
  "set_intersection [] ys = []"
| "set_intersection (x # xs) [] = []"
| "set_intersection (x # xs) (y # ys) =
     (if x < y then set_intersection xs (y # ys)
      else if \<not> y < x then x # set_intersection xs ys
      else set_intersection (x # xs) ys)"

text \<open>
  The containers. An \<open>unordered_map\<close> that the code iterates over is an association
  list in iteration order; one that is only indexed is a map. \<open>'r\<close> is the type of
  regions (\<open>GridRegion<3>\<close>), \<open>'b\<close> the type of boxes (\<open>GridBox<3>\<close>), \<open>'s\<close> the type of
  buffer states; \<open>get_source_nodes\<close> of a buffer state is the parameter \<open>gsn\<close>, and
  \<open>std::numeric_limits<node_id>::max()\<close> the parameter \<open>nid_max\<close>.
\<close>

type_synonym 'r buffer_requirements = "(buffer_id \<times> (access_mode \<rightharpoonup> 'r)) list"
type_synonym 'r chunk_buffer_requirements_map = "chunk_id \<rightharpoonup> 'r buffer_requirements"
type_synonym 'b source_cover = "('b \<times> node_id list) list"
type_synonym 'b chunk_buffer_source_map = "chunk_id \<rightharpoonup> (buffer_id \<rightharpoonup> 'b source_cover)"

definition store_sources ::
  "chunk_id \<Rightarrow> buffer_id \<Rightarrow> 'b source_cover \<Rightarrow> 'b chunk_buffer_source_map \<Rightarrow> 'b chunk_buffer_source_map" where
  "store_sources i bid sn cbs =
     cbs(i \<mapsto> (case cbs i of None \<Rightarrow> Map.empty | Some m \<Rightarrow> m)(bid \<mapsto> sn))"

text \<open>
  The first half of the loop body: the source nodes of the read requirement of one
  buffer (empty when the buffer is not read), stored in \<open>chunk_buffer_sources\<close>.
\<close>

definition read_sources ::
  "('s \<Rightarrow> 'r \<Rightarrow> 'b source_cover) \<Rightarrow> (buffer_id \<rightharpoonup> 's) \<Rightarrow> chunk_id \<Rightarrow> buffer_id \<Rightarrow>
   (access_mode \<rightharpoonup> 'r) \<Rightarrow> 'b chunk_buffer_source_map \<Rightarrow>
   fault + ('b chunk_buffer_source_map \<times> node_id list)" where
  "read_sources gsn valid_buffer_regions i bid modes cbs =
     (case modes Mode_read of
        None \<Rightarrow> Inr (cbs, [])
      | Some read_req \<Rightarrow>
          (case valid_buffer_regions bid of
             None \<Rightarrow> Inl Out_of_range
           | Some bs \<Rightarrow>
               (let sn = gsn bs read_req
                in if sn = [] then Inl Assertion_failed
                   else Inr (store_sources i bid sn cbs, snd (hd sn)))))"

text \<open>The choice of the node, given the free nodes (not empty) and the source nodes.\<close>

definition pick_node :: "node_id list \<Rightarrow> node_id list \<Rightarrow> node_id" where
  "pick_node free_nodes source_nodes =
     (if source_nodes \<noteq> [] then
        (case set_intersection free_nodes source_nodes of
           [] \<Rightarrow> hd free_nodes
         | n # _ \<Rightarrow> n)
      else hd free_nodes)"

text \<open>
  The loop over the buffers of one chunk. \<open>free_nodes\<close> is the \<open>std::set\<close> as its
  sorted list of elements.
\<close>

fun assign_chunk_buffers ::
  "node_id \<Rightarrow> ('s \<Rightarrow> 'r \<Rightarrow> 'b source_cover) \<Rightarrow> (buffer_id \<rightharpoonup> 's) \<Rightarrow> chunk_id \<Rightarrow>
   'r buffer_requirements \<Rightarrow> bool \<Rightarrow> node_id list \<Rightarrow> (chunk_id \<rightharpoonup> node_id) \<Rightarrow>
   'b chunk_buffer_source_map \<Rightarrow>
   fault + (node_id list \<times> (chunk_id \<rightharpoonup> node_id) \<times> 'b chunk_buffer_source_map)" where
  "assign_chunk_buffers nid_max gsn vbr i [] node_assigned free_nodes chunk_nodes cbs =
     Inr (free_nodes, chunk_nodes, cbs)"
| "assign_chunk_buffers nid_max gsn vbr i ((bid, modes) # rest) node_assigned free_nodes chunk_nodes cbs =
     (case read_sources gsn vbr i bid modes cbs of
        Inl e \<Rightarrow> Inl e
      | Inr (cbs1, source_nodes) \<Rightarrow>
          (if \<not> node_assigned then
             (if free_nodes = [] then Inl Assertion_failed
              else
                (let nid = pick_node free_nodes source_nodes
                 in if nid = nid_max then Inl Assertion_failed
                    else assign_chunk_buffers nid_max gsn vbr i rest True
                           (removeAll nid free_nodes) (chunk_nodes(i \<mapsto> nid)) cbs1))
           else assign_chunk_buffers nid_max gsn vbr i rest node_assigned free_nodes chunk_nodes cbs1))"

text \<open>The loop over the chunks; \<open>chunk_reqs.at(i)\<close> throws when chunk \<open>i\<close> has no entry.\<close>

function assign_chunks_loop ::
  "node_id \<Rightarrow> ('s \<Rightarrow> 'r \<Rightarrow> 'b source_cover) \<Rightarrow> (buffer_id \<rightharpoonup> 's) \<Rightarrow>
   'r chunk_buffer_requirements_map \<Rightarrow> nat \<Rightarrow> nat \<Rightarrow> node_id list \<Rightarrow> (chunk_id \<rightharpoonup> node_id) \<Rightarrow>
   'b chunk_buffer_source_map \<Rightarrow>
   fault + ((chunk_id \<rightharpoonup> node_id) \<times> 'b chunk_buffer_source_map)" where
  "assign_chunks_loop nid_max gsn vbr chunk_reqs num_chunks i free_nodes chunk_nodes cbs =
     (if i < num_chunks then
        (case chunk_reqs i of
           None \<Rightarrow> Inl Out_of_range
         | Some entries \<Rightarrow>
             (case assign_chunk_buffers nid_max gsn vbr i entries False free_nodes chunk_nodes cbs of
                Inl e \<Rightarrow> Inl e
              | Inr (free_nodes1, chunk_nodes1, cbs1) \<Rightarrow>
                  assign_chunks_loop nid_max gsn vbr chunk_reqs num_chunks (i + 1)
                    free_nodes1 chunk_nodes1 cbs1))
      else Inr (chunk_nodes, cbs))"
  by pat_completeness auto
termination
  by (relation "measure (\<lambda>(nid_max, gsn, vbr, chunk_reqs, num_chunks, i, rest). num_chunks - i)") auto

declare assign_chunks_loop.simps [simp del]

definition assign_chunks_to_nodes ::
  "node_id \<Rightarrow> ('s \<Rightarrow> 'r \<Rightarrow> 'b source_cover) \<Rightarrow> nat \<Rightarrow> 'r chunk_buffer_requirements_map \<Rightarrow>
   (buffer_id \<rightharpoonup> 's) \<Rightarrow> node_id list \<Rightarrow> 'b chunk_buffer_source_map \<Rightarrow>
   fault + ((chunk_id \<rightharpoonup> node_id) \<times> 'b chunk_buffer_source_map)" where
  "assign_chunks_to_nodes nid_max gsn num_chunks chunk_reqs valid_buffer_regions free_nodes cbs =
     assign_chunks_loop nid_max gsn valid_buffer_regions chunk_reqs num_chunks 0 free_nodes Map.empty cbs"

text \<open>
  The rule as the specification words it, for one chunk: the source nodes are those of
  the first buffer of the chunk that is read; the node is the smallest element of
  the intersection of the free nodes with them when there is one, the smallest free
  node otherwise.
\<close>

fun spec_first_read_sources ::
  "('s \<Rightarrow> 'r \<Rightarrow> 'b source_cover) \<Rightarrow> (buffer_id \<rightharpoonup> 's) \<Rightarrow> 'r buffer_requirements \<Rightarrow> node_id set" where
  "spec_first_read_sources gsn vbr [] = {}"
| "spec_first_read_sources gsn vbr ((bid, modes) # rest) =
     (case modes Mode_read of
        None \<Rightarrow> spec_first_read_sources gsn vbr rest
      | Some read_req \<Rightarrow>
          (case vbr bid of
             None \<Rightarrow> {}
           | Some bs \<Rightarrow> \<Union> (set (map (\<lambda>p. set (snd p)) (gsn bs read_req)))))"


text \<open>
  The source nodes the code looks at for a chunk: those of the first box of the cover
  of the read requirement of the first buffer in iteration order, none when that
  buffer is not read.
\<close>

definition first_buffer_sources ::
  "('s \<Rightarrow> 'r \<Rightarrow> 'b source_cover) \<Rightarrow> (buffer_id \<rightharpoonup> 's) \<Rightarrow> 'r buffer_requirements \<Rightarrow> node_id list" where
  "first_buffer_sources gsn vbr entries =
     (case entries of
        [] \<Rightarrow> []
      | (bid, modes) # _ \<Rightarrow>
          (case modes Mode_read of
             None \<Rightarrow> []
           | Some read_req \<Rightarrow>
               (case vbr bid of
                  None \<Rightarrow> []
                | Some bs \<Rightarrow> (case gsn bs read_req of [] \<Rightarrow> [] | (box, nodes) # _ \<Rightarrow> nodes))))"

text \<open>
  The chunks whose first buffer in iteration order settles the first buffer that is
  read: that buffer is read, or no buffer of the chunk is.
\<close>

definition first_buffer_decides :: "'r buffer_requirements \<Rightarrow> bool" where
  "first_buffer_decides entries \<longleftrightarrow>
     (case entries of
        [] \<Rightarrow> False
      | (bid, modes) # rest \<Rightarrow>
          modes Mode_read \<noteq> None \<or> list_all (\<lambda>entry. snd entry Mode_read = None) rest)"



section \<open>Processing a compute task (runtime.cc, process_compute_task)\<close>

text \<open>
  The global size of a task is a variant over the ranges of one, two and three
  dimensions; a chunk is a subrange of the dimensionality of its task.
\<close>

datatype any_range =
    Range_1 nat
  | Range_2 nat nat
  | Range_3 nat nat nat

datatype chunk =
    Chunk_1 "nat subrange"
  | Chunk_2 "(nat \<times> nat) subrange"
  | Chunk_3 "(nat \<times> nat \<times> nat) subrange"

text \<open>
  A range mapper: its access mode, the dimensions of the kernel and of the buffer,
  and for each buffer dimensionality the region a chunk needs (\<open>map_1\<close>, \<open>map_2\<close>,
  \<open>map_3\<close> followed by the promotion to three dimensions and by
  \<open>subrange_to_grid_region\<close>).
\<close>

record 'r range_mapper =
  rm_access_mode :: access_mode
  rm_kernel_dimensions :: nat
  rm_buffer_dimensions :: nat
  rm_map_1 :: "chunk \<Rightarrow> 'r"
  rm_map_2 :: "chunk \<Rightarrow> 'r"
  rm_map_3 :: "chunk \<Rightarrow> 'r"

record 'r compute_task =
  ct_dimensions :: nat
  ct_global_size :: any_range
  ct_range_mappers :: "(buffer_id \<times> 'r range_mapper list) list"

text \<open>
  \<open>auto sr = subrange<Dims>(); sr.global_size = boost::get<...>(...); sr.range =
  sr.global_size; split_equal(sr, num_chunks)\<close>: the start of the value-initialised
  subrange is zero in every dimension, \<open>boost::get\<close> throws when the variant holds a
  range of another dimensionality.
\<close>

definition split_task :: "nat \<Rightarrow> any_range \<Rightarrow> nat \<Rightarrow> fault + chunk list" where
  "split_task dims global_size num_chunks =
     (if dims = 1 then
        (case global_size of
           Range_1 r \<Rightarrow>
             map_sum id (map Chunk_1)
               (split_equal_1 \<lparr>sr_start = 0, sr_range = r, sr_global_size = r\<rparr> num_chunks)
         | _ \<Rightarrow> Inl Bad_get)
      else if dims = 2 then
        (case global_size of
           Range_2 r0 r1 \<Rightarrow>
             map_sum id (map Chunk_2)
               (split_equal_2 \<lparr>sr_start = (0, 0), sr_range = (r0, r1), sr_global_size = (r0, r1)\<rparr> num_chunks)
         | _ \<Rightarrow> Inl Bad_get)
      else
        (case global_size of
           Range_3 r0 r1 r2 \<Rightarrow>
             map_sum id (map Chunk_3)
               (split_equal_3 \<lparr>sr_start = (0, 0, 0), sr_range = (r0, r1, r2),
                               sr_global_size = (r0, r1, r2)\<rparr> num_chunks)
         | _ \<Rightarrow> Inl Bad_get))"

text \<open>
  \<open>chunk_requirements[i][bid][mode] = merge(chunk_requirements[i][bid][mode], region)\<close>.
  Indexing creates what is missing: the entry of the chunk, the entry of the buffer
  and an empty region. Where a new buffer shows up in the iteration order of the
  \<open>unordered_map\<close> is left to the implementation: \<open>slot\<close> gives the position from the
  new key and the keys present.
\<close>

definition umap_put ::
  "(buffer_id \<Rightarrow> buffer_id list \<Rightarrow> nat) \<Rightarrow> buffer_id \<Rightarrow> 'v \<Rightarrow> (buffer_id \<times> 'v) list \<Rightarrow> (buffer_id \<times> 'v) list" where
  "umap_put slot k v kvs =
     (if k \<in> fst ` set kvs then map (\<lambda>(k', v'). if k' = k then (k', v) else (k', v')) kvs
      else take (slot k (map fst kvs)) kvs @ [(k, v)] @ drop (slot k (map fst kvs)) kvs)"

definition add_requirement ::
  "(buffer_id \<Rightarrow> buffer_id list \<Rightarrow> nat) \<Rightarrow> ('r \<Rightarrow> 'r \<Rightarrow> 'r) \<Rightarrow> 'r \<Rightarrow> chunk_id \<Rightarrow> buffer_id \<Rightarrow>
   access_mode \<Rightarrow> 'r \<Rightarrow> 'r chunk_buffer_requirements_map \<Rightarrow> 'r chunk_buffer_requirements_map" where
  "add_requirement slot merge empty_region i bid mode region chunk_requirements =
     (let entries = (case chunk_requirements i of None \<Rightarrow> [] | Some es \<Rightarrow> es);
          modes = (case map_of entries bid of None \<Rightarrow> Map.empty | Some ms \<Rightarrow> ms);
          reqs = (case modes mode of None \<Rightarrow> empty_region | Some r \<Rightarrow> r)
      in chunk_requirements(i \<mapsto> umap_put slot bid (modes(mode \<mapsto> merge reqs region)) entries))"

text \<open>One range mapper applied to all chunks, after its two assertions.\<close>

definition map_chunk :: "'r range_mapper \<Rightarrow> chunk \<Rightarrow> 'r" where
  "map_chunk rm c =
     (if rm_buffer_dimensions rm = 2 then rm_map_2 rm c
      else if rm_buffer_dimensions rm = 3 then rm_map_3 rm c
      else rm_map_1 rm c)"

definition apply_range_mapper ::
  "(buffer_id \<Rightarrow> buffer_id list \<Rightarrow> nat) \<Rightarrow> ('r \<Rightarrow> 'r \<Rightarrow> 'r) \<Rightarrow> 'r \<Rightarrow> nat \<Rightarrow> chunk list \<Rightarrow> buffer_id \<Rightarrow>
   'r range_mapper \<Rightarrow> 'r chunk_buffer_requirements_map \<Rightarrow> fault + 'r chunk_buffer_requirements_map" where
  "apply_range_mapper slot merge empty_region dims chunks bid rm chunk_requirements =
     (if rm_access_mode rm \<noteq> Mode_read \<and> rm_access_mode rm \<noteq> Mode_write then Inl Assertion_failed
      else if rm_kernel_dimensions rm \<noteq> dims then Inl Assertion_failed
      else Inr (fold (\<lambda>i. add_requirement slot merge empty_region i bid (rm_access_mode rm)
                             (map_chunk rm (chunks ! i)))
                  [0..<length chunks] chunk_requirements))"

fun apply_range_mappers ::
  "(buffer_id \<Rightarrow> buffer_id list \<Rightarrow> nat) \<Rightarrow> ('r \<Rightarrow> 'r \<Rightarrow> 'r) \<Rightarrow> 'r \<Rightarrow> nat \<Rightarrow> chunk list \<Rightarrow> buffer_id \<Rightarrow>
   'r range_mapper list \<Rightarrow> 'r chunk_buffer_requirements_map \<Rightarrow> fault + 'r chunk_buffer_requirements_map" where
  "apply_range_mappers slot merge empty_region dims chunks bid [] chunk_requirements = Inr chunk_requirements"
| "apply_range_mappers slot merge empty_region dims chunks bid (rm # rms) chunk_requirements =
     (case apply_range_mapper slot merge empty_region dims chunks bid rm chunk_requirements of
        Inl e \<Rightarrow> Inl e
      | Inr chunk_requirements1 \<Rightarrow>
          apply_range_mappers slot merge empty_region dims chunks bid rms chunk_requirements1)"

fun collect_requirements ::
  "(buffer_id \<Rightarrow> buffer_id list \<Rightarrow> nat) \<Rightarrow> ('r \<Rightarrow> 'r \<Rightarrow> 'r) \<Rightarrow> 'r \<Rightarrow> nat \<Rightarrow> chunk list \<Rightarrow>
   (buffer_id \<times> 'r range_mapper list) list \<Rightarrow> 'r chunk_buffer_requirements_map \<Rightarrow>
   fault + 'r chunk_buffer_requirements_map" where
  "collect_requirements slot merge empty_region dims chunks [] chunk_requirements = Inr chunk_requirements"
| "collect_requirements slot merge empty_region dims chunks ((bid, rms) # rest) chunk_requirements =
     (case apply_range_mappers slot merge empty_region dims chunks bid rms chunk_requirements of
        Inl e \<Rightarrow> Inl e
      | Inr chunk_requirements1 \<Rightarrow>
          collect_requirements slot merge empty_region dims chunks rest chunk_requirements1)"

text \<open>The free nodes: 0 to \<open>num_worker_nodes\<close>, without the master unless it works alone.\<close>

definition initial_free_nodes :: "nat \<Rightarrow> bool \<Rightarrow> node_id list" where
  "initial_free_nodes num_worker_nodes master_only =
     filter (\<lambda>i. \<not> (\<not> master_only \<and> i = 0)) [0..<num_worker_nodes + 1]"

text \<open>
  What \<open>process_compute_task\<close> hands back: its out-parameters, and the compute
  commands it adds to the command graph, each with its node and its chunk.
  \<open>chunk_nodes[i]\<close> of a chunk that has no node creates the entry with node 0.
\<close>

record ('r, 'b) processed_task =
  pt_num_chunks :: nat
  pt_chunk_nodes :: "chunk_id \<rightharpoonup> node_id"
  pt_chunk_requirements :: "'r chunk_buffer_requirements_map"
  pt_chunk_buffer_sources :: "'b chunk_buffer_source_map"
  pt_compute_commands :: "(node_id \<times> chunk) list"

definition compute_commands :: "chunk list \<Rightarrow> (chunk_id \<rightharpoonup> node_id) \<Rightarrow> (node_id \<times> chunk) list" where
  "compute_commands chunks chunk_nodes =
     map (\<lambda>i. (case chunk_nodes i of None \<Rightarrow> 0 | Some nid \<Rightarrow> nid, chunks ! i)) [0..<length chunks]"

definition process_compute_task ::
  "node_id \<Rightarrow> ('s \<Rightarrow> 'r \<Rightarrow> 'b source_cover) \<Rightarrow> (buffer_id \<Rightarrow> buffer_id list \<Rightarrow> nat) \<Rightarrow>
   ('r \<Rightarrow> 'r \<Rightarrow> 'r) \<Rightarrow> 'r \<Rightarrow> nat \<Rightarrow> 'r compute_task \<Rightarrow> nat \<Rightarrow> bool \<Rightarrow> (buffer_id \<rightharpoonup> 's) \<Rightarrow>
   'r chunk_buffer_requirements_map \<Rightarrow> 'b chunk_buffer_source_map \<Rightarrow>
   fault + ('r, 'b) processed_task" where
  "process_compute_task nid_max gsn slot merge empty_region dims ctsk num_worker_nodes master_only
     valid_buffer_regions chunk_requirements chunk_buffer_sources =
     (if ct_dimensions ctsk \<noteq> dims then Inl Assertion_failed
      else
        (case split_task dims (ct_global_size ctsk) num_worker_nodes of
           Inl e \<Rightarrow> Inl e
         | Inr chunks \<Rightarrow>
             (case collect_requirements slot merge empty_region dims chunks
                     (ct_range_mappers ctsk) chunk_requirements of
                Inl e \<Rightarrow> Inl e
              | Inr chunk_requirements1 \<Rightarrow>
                  (case assign_chunks_to_nodes nid_max gsn (length chunks) chunk_requirements1
                          valid_buffer_regions (initial_free_nodes num_worker_nodes master_only)
                          chunk_buffer_sources of
                     Inl e \<Rightarrow> Inl e
                   | Inr (chunk_nodes, chunk_buffer_sources1) \<Rightarrow>
                       Inr \<lparr>pt_num_chunks = num_worker_nodes,
                            pt_chunk_nodes = chunk_nodes,
                            pt_chunk_requirements = chunk_requirements1,
                            pt_chunk_buffer_sources = chunk_buffer_sources1,
                            pt_compute_commands = compute_commands chunks chunk_nodes\<rparr>))))"

text \<open>
  The part of \<open>build_command_graph\<close> that lowers one compute task: the number of
  worker nodes (\<open>num_nodes - 1\<close> on \<open>size_t\<close>, at least 1), the switch over the
  dimensions of the task, and the call with the fresh maps of this round.
\<close>

definition num_worker_nodes_of :: "nat \<Rightarrow> nat" where
  "num_worker_nodes_of num_nodes = max (if num_nodes = 0 then 2 ^ 64 - 1 else num_nodes - 1) 1"

definition template_dims :: "nat \<Rightarrow> nat" where
  "template_dims d = (if d = 2 then 2 else if d = 3 then 3 else 1)"

definition task_chunks :: "nat \<Rightarrow> 'r compute_task \<Rightarrow> fault + chunk list" where
  "task_chunks num_nodes ctsk =
     (if ct_dimensions ctsk \<noteq> template_dims (ct_dimensions ctsk) then Inl Assertion_failed
      else split_task (template_dims (ct_dimensions ctsk)) (ct_global_size ctsk)
             (num_worker_nodes_of num_nodes))"

definition build_compute_task ::
  "node_id \<Rightarrow> ('s \<Rightarrow> 'r \<Rightarrow> 'b source_cover) \<Rightarrow> (buffer_id \<Rightarrow> buffer_id list \<Rightarrow> nat) \<Rightarrow>
   ('r \<Rightarrow> 'r \<Rightarrow> 'r) \<Rightarrow> 'r \<Rightarrow> nat \<Rightarrow> 'r compute_task \<Rightarrow> (buffer_id \<rightharpoonup> 's) \<Rightarrow>
   fault + ('r, 'b) processed_task" where
  "build_compute_task nid_max gsn slot merge empty_region num_nodes ctsk valid_buffer_regions =
     process_compute_task nid_max gsn slot merge empty_region (template_dims (ct_dimensions ctsk)) ctsk
       (num_worker_nodes_of num_nodes) (num_nodes = 1) valid_buffer_regions Map.empty Map.empty"


section \<open>The command graph (command_graph.h)\<close>

text \<open>
  Modelled from the spec: the command objects, whose class (\<open>abstract_command\<close> and its
  subclasses, command.h) is not part of the sources. A command has its id, the node it
  runs on, its kind, the task it belongs to (read for task commands only), the list
  of its dependencies, each a pair of the command depended on and the anti flag, and
  its pseudo critical path length, one more than the largest of its dependees'. The
  task commands are the compute and the master access commands. A pointer to a
  command is the id of the command; an id that names no command of the graph stands
  for no pointer, and the operations answer it with \<open>No_such_command\<close>.
\<close>

datatype command_kind = Nop | Compute | Master_access | Push | Await_push | Shutdown

record abstract_command =
  cmd_cid :: command_id
  cmd_nid :: node_id
  cmd_kind :: command_kind
  cmd_tid :: task_id
  cmd_dependencies :: "(command_id \<times> bool) list"
  cmd_pseudo_critical_path_length :: nat

definition is_task_command :: "command_kind \<Rightarrow> bool" where
  "is_task_command k \<longleftrightarrow> k = Compute \<or> k = Master_access"

text \<open>
  Modelled from the spec: \<open>abstract_command::add_dependency\<close> and
  \<open>abstract_command::remove_dependency\<close>, which command.h defines. The first records
  the dependency and raises the path length to at least one more than the dependee's,
  the second drops every dependency on the dependee.
\<close>

definition cmd_add_dependency :: "abstract_command \<Rightarrow> command_id \<times> bool \<Rightarrow> nat \<Rightarrow> abstract_command" where
  "cmd_add_dependency cmd dep dependee_length =
     cmd\<lparr>cmd_dependencies := cmd_dependencies cmd @ [dep],
         cmd_pseudo_critical_path_length :=
           max (cmd_pseudo_critical_path_length cmd) (dependee_length + 1)\<rparr>"

definition cmd_remove_dependency :: "abstract_command \<Rightarrow> command_id \<Rightarrow> abstract_command" where
  "cmd_remove_dependency cmd dependee =
     cmd\<lparr>cmd_dependencies := filter (\<lambda>dep. fst dep \<noteq> dependee) (cmd_dependencies cmd)\<rparr>"

text \<open>The graph, as the class declares it.\<close>

record command_graph =
  next_cmd_id :: command_id
  commands :: "command_id \<rightharpoonup> abstract_command"
  by_task :: "task_id \<rightharpoonup> command_id list"
  execution_fronts :: "node_id \<rightharpoonup> command_id set"
  max_pseudo_critical_path_length :: nat

definition empty_graph :: command_graph where
  "empty_graph =
     \<lparr>next_cmd_id = 0, commands = Map.empty, by_task = Map.empty, execution_fronts = Map.empty,
      max_pseudo_critical_path_length = 0\<rparr>"

text \<open>\<open>execution_fronts[nid]\<close>: indexing creates an empty set where there is none.\<close>

definition front_of :: "command_graph \<Rightarrow> node_id \<Rightarrow> command_id set" where
  "front_of g nid = (case execution_fronts g nid of None \<Rightarrow> {} | Some front \<Rightarrow> front)"

text \<open>
  \<open>create<T>(nid, ...)\<close>: the kind stands for \<open>T\<close>. \<open>emplace\<close> keeps a command that is
  already stored under the id.
\<close>

definition create :: "command_kind \<Rightarrow> node_id \<Rightarrow> task_id \<Rightarrow> command_graph \<Rightarrow> command_id \<times> command_graph" where
  "create kind nid tid g =
     (let cid = next_cmd_id g;
          cmd = (case commands g cid of
                   None \<Rightarrow> \<lparr>cmd_cid = cid, cmd_nid = nid, cmd_kind = kind, cmd_tid = tid,
                             cmd_dependencies = [], cmd_pseudo_critical_path_length = 0\<rparr>
                 | Some old \<Rightarrow> old);
          g1 = g\<lparr>next_cmd_id := cid + 1, commands := (commands g)(cid \<mapsto> cmd)\<rparr>;
          g2 = (if is_task_command (cmd_kind cmd)
                then g1\<lparr>by_task := (by_task g1)(cmd_tid cmd \<mapsto>
                         (case by_task g1 (cmd_tid cmd) of None \<Rightarrow> [] | Some cs \<Rightarrow> cs) @ [cid])\<rparr>
                else g1);
          g3 = (if kind \<noteq> Nop
                then g2\<lparr>execution_fronts := (execution_fronts g2)(cmd_nid cmd \<mapsto>
                         insert cid (front_of g2 (cmd_nid cmd)))\<rparr>
                else g2)
      in (cid, g3))"

definition add_dependency :: "command_id \<Rightarrow> command_id \<Rightarrow> bool \<Rightarrow> command_graph \<Rightarrow> fault + command_graph" where
  "add_dependency depender dependee is_anti g =
     (case commands g depender of
        None \<Rightarrow> Inl No_such_command
      | Some a \<Rightarrow>
          (case commands g dependee of
             None \<Rightarrow> Inl No_such_command
           | Some b \<Rightarrow>
               if cmd_nid a \<noteq> cmd_nid b then Inl Assertion_failed
               else if dependee = depender then Inl Assertion_failed
               else
                 (let a1 = cmd_add_dependency a (dependee, is_anti) (cmd_pseudo_critical_path_length b)
                  in Inr (g\<lparr>commands := (commands g)(depender \<mapsto> a1),
                            execution_fronts := (execution_fronts g)(cmd_nid a \<mapsto>
                              front_of g (cmd_nid a) - {dependee}),
                            max_pseudo_critical_path_length :=
                              max (max_pseudo_critical_path_length g)
                                  (cmd_pseudo_critical_path_length a1)\<rparr>))))"

definition remove_dependency :: "command_id \<Rightarrow> command_id \<Rightarrow> command_graph \<Rightarrow> fault + command_graph" where
  "remove_dependency depender dependee g =
     (case commands g depender of
        None \<Rightarrow> Inl No_such_command
      | Some a \<Rightarrow> Inr (g\<lparr>commands := (commands g)(depender \<mapsto> cmd_remove_dependency a dependee)\<rparr>))"

definition get_execution_front :: "node_id \<Rightarrow> command_graph \<Rightarrow> fault + command_id set" where
  "get_execution_front nid g =
     (case execution_fronts g nid of None \<Rightarrow> Inl Out_of_range | Some front \<Rightarrow> Inr front)"

text \<open>Sequences of operations on a graph; a fault ends the sequence.\<close>

datatype graph_op =
    Create command_kind node_id task_id
  | Add_dependency command_id command_id bool
  | Remove_dependency command_id command_id

fun apply_op :: "graph_op \<Rightarrow> command_graph \<Rightarrow> fault + command_graph" where
  "apply_op (Create kind nid tid) g = Inr (snd (create kind nid tid g))"
| "apply_op (Add_dependency depender dependee is_anti) g = add_dependency depender dependee is_anti g"
| "apply_op (Remove_dependency depender dependee) g = remove_dependency depender dependee g"

fun run_ops :: "graph_op list \<Rightarrow> command_graph \<Rightarrow> fault + command_graph" where
  "run_ops [] g = Inr g"
| "run_ops (op # ops) g = (case apply_op op g of Inl e \<Rightarrow> Inl e | Inr g1 \<Rightarrow> run_ops ops g1)"

fun is_remove :: "graph_op \<Rightarrow> bool" where
  "is_remove (Remove_dependency depender dependee) = True"
| "is_remove other = False"

text \<open>
  The dependents of a command are the commands that have it among their dependencies.
  Every command of the graph has an id below \<open>next_cmd_id\<close>.
\<close>

definition depends_on :: "command_graph \<Rightarrow> command_id \<Rightarrow> command_id \<Rightarrow> bool" where
  "depends_on g d c \<longleftrightarrow>
     (case commands g d of None \<Rightarrow> False | Some cmd \<Rightarrow> c \<in> fst ` set (cmd_dependencies cmd))"

definition has_dependents :: "command_graph \<Rightarrow> command_id \<Rightarrow> bool" where
  "has_dependents g c \<longleftrightarrow> list_ex (\<lambda>d. depends_on g d c) [0..<next_cmd_id g]"

definition on_node :: "command_graph \<Rightarrow> node_id \<Rightarrow> command_id \<Rightarrow> bool" where
  "on_node g nid c \<longleftrightarrow> (case commands g c of None \<Rightarrow> False | Some cmd \<Rightarrow> cmd_nid cmd = nid)"

definition is_nop :: "command_graph \<Rightarrow> command_id \<Rightarrow> bool" where
  "is_nop g c \<longleftrightarrow> (case commands g c of None \<Rightarrow> False | Some cmd \<Rightarrow> cmd_kind cmd = Nop)"

text \<open>The commands on a node that have no dependents: all of them, and those that are no \<open>nop\<close>.\<close>

definition commands_without_dependents :: "command_graph \<Rightarrow> node_id \<Rightarrow> command_id set" where
  "commands_without_dependents g nid =
     set (filter (\<lambda>c. on_node g nid c \<and> \<not> has_dependents g c) [0..<next_cmd_id g])"

definition work_without_dependents :: "command_graph \<Rightarrow> node_id \<Rightarrow> command_id set" where
  "work_without_dependents g nid =
     set (filter (\<lambda>c. on_node g nid c \<and> \<not> is_nop g c \<and> \<not> has_dependents g c) [0..<next_cmd_id g])"

text \<open>
  The invariant as the specification words it, read off the graph a sequence of
  operations leaves (\<open>None\<close> when the sequence ends in a fault).
\<close>

definition spec_front_invariant_after :: "graph_op list \<Rightarrow> node_id \<Rightarrow> bool option" where
  "spec_front_invariant_after ops nid =
     (case run_ops ops empty_graph of
        Inl e \<Rightarrow> None
      | Inr g \<Rightarrow> Some (front_of g nid = commands_without_dependents g nid))"

text \<open>The dependency edges of a graph: every edge joins two distinct commands of one node.\<close>

definition edges_local :: "command_graph \<Rightarrow> bool" where
  "edges_local g \<longleftrightarrow>
     (\<forall>d c. d < next_cmd_id g \<and> depends_on g d c \<longrightarrow>
        c \<noteq> d \<and> c < next_cmd_id g
        \<and> (\<exists>a b. commands g d = Some a \<and> commands g c = Some b \<and> cmd_nid a = cmd_nid b))"

text \<open>The ids in use, also as targets of dependencies, are those below \<open>next_cmd_id\<close>.\<close>

definition graph_wf :: "command_graph \<Rightarrow> bool" where
  "graph_wf g \<longleftrightarrow>
     dom (commands g) = {0..<next_cmd_id g} \<and> (\<forall>d c. depends_on g d c \<longrightarrow> c < next_cmd_id g)"

text \<open>The execution fronts hold the commands without dependents that are no \<open>nop\<close>.\<close>

definition front_inv :: "command_graph \<Rightarrow> bool" where
  "front_inv g \<longleftrightarrow> (\<forall>nid. front_of g nid = work_without_dependents g nid)"

section \<open>The buffer transfer manager (buffer_transfer_manager.cc)\<close>

text \<open>
  A command package carries the command and its data; the data of an \<open>await_push\<close> are the
  buffer, the id of the push command on the sender and the subrange. The C union of
  the source is a datatype here; reading the \<open>await_push\<close> member of a package that
  holds other data has no counterpart and is a fault.
\<close>

record command_subrange =
  cs_offset :: "nat \<times> nat \<times> nat"
  cs_range :: "nat \<times> nat \<times> nat"

datatype command_data =
    No_data
  | Compute_data command_subrange
  | Push_data buffer_id node_id command_subrange
  | Await_push_data buffer_id command_id command_subrange

record command_pkg =
  pkg_tid :: task_id
  pkg_cid :: command_id
  pkg_cmd :: command_kind
  pkg_data :: command_data

text \<open>
  An incoming transfer: its header, its bytes, and what \<open>MPI_Test\<close> answers for its
  request when the manager polls. A handle is shared between the blackboard and the
  job that waits on it, so handles live in a store and are named by references;
  \<open>make_shared\<close> takes the next free reference.
\<close>

record data_header =
  h_bid :: buffer_id
  h_subrange :: command_subrange
  h_push_cid :: command_id

record transfer_in =
  ti_header :: data_header
  ti_data :: "nat list"
  ti_request_done :: bool

record incoming_transfer_handle =
  ith_complete :: bool
  ith_transfer :: "transfer_in option"

record raw_data_handle =
  rdh_data :: "nat list"
  rdh_range :: "nat \<times> nat \<times> nat"
  rdh_offset :: "nat \<times> nat \<times> nat"

type_synonym handle_ref = nat

text \<open>
  The state: the blackboard, the store of handles, the incoming transfers, and the
  buffers of the runtime (runtime.h, \<open>buffer_ptrs\<close>). A buffer pointer is absent, null
  (\<open>None\<close>) or a storage; the storage class is not part of the sources, and a storage is
  the list of the \<open>set_data\<close> calls it received.
\<close>

record btm_state =
  push_blackboard :: "command_id \<rightharpoonup> handle_ref"
  handles :: "handle_ref \<rightharpoonup> incoming_transfer_handle"
  next_handle :: handle_ref
  incoming_transfers :: "transfer_in list"
  buffer_ptrs :: "buffer_id \<rightharpoonup> raw_data_handle list option"

definition make_handle :: "incoming_transfer_handle \<Rightarrow> btm_state \<Rightarrow> handle_ref \<times> btm_state" where
  "make_handle h s =
     (next_handle s, s\<lparr>handles := (handles s)(next_handle s \<mapsto> h), next_handle := next_handle s + 1\<rparr>)"

text \<open>\<open>runtime::set_buffer_data\<close>: \<open>at\<close> throws on an unknown buffer, the assertion fails on a null pointer.\<close>

definition set_buffer_data :: "buffer_id \<Rightarrow> raw_data_handle \<Rightarrow> btm_state \<Rightarrow> fault + btm_state" where
  "set_buffer_data bid dh s =
     (case buffer_ptrs s bid of
        None \<Rightarrow> Inl Out_of_range
      | Some None \<Rightarrow> Inl Assertion_failed
      | Some (Some writes) \<Rightarrow> Inr (s\<lparr>buffer_ptrs := (buffer_ptrs s)(bid \<mapsto> Some (writes @ [dh]))\<rparr>))"

definition data_handle_of :: "transfer_in \<Rightarrow> raw_data_handle" where
  "data_handle_of transfer =
     \<lparr>rdh_data = ti_data transfer,
      rdh_range = cs_range (h_subrange (ti_header transfer)),
      rdh_offset = cs_offset (h_subrange (ti_header transfer))\<rparr>"

definition write_data_to_buffer :: "transfer_in \<Rightarrow> btm_state \<Rightarrow> fault + btm_state" where
  "write_data_to_buffer transfer s =
     set_buffer_data (h_bid (ti_header transfer)) (data_handle_of transfer) s"

text \<open>
  \<open>await_push\<close>. With an entry on the blackboard the entry is erased, the three
  assertions are checked and the data are written; the handle keeps its transfer,
  since \<open>write_data_to_buffer\<close> takes the pointer by reference and does not move from
  it. Without an entry a fresh handle is stored on the blackboard.
\<close>

definition await_push :: "command_pkg \<Rightarrow> btm_state \<Rightarrow> fault + (handle_ref \<times> btm_state)" where
  "await_push pkg s =
     (if pkg_cmd pkg \<noteq> Await_push then Inl Assertion_failed
      else
        (case pkg_data pkg of
           Await_push_data bid source_cid subrange \<Rightarrow>
             (case push_blackboard s source_cid of
                Some t_handle \<Rightarrow>
                  (let s1 = s\<lparr>push_blackboard := (push_blackboard s)(source_cid := None)\<rparr>
                   in case handles s1 t_handle of
                        None \<Rightarrow> Inl Dangling_handle
                      | Some h \<Rightarrow>
                          (case ith_transfer h of
                             None \<Rightarrow> Inl Assertion_failed
                           | Some transfer \<Rightarrow>
                               if h_bid (ti_header transfer) \<noteq> bid then Inl Assertion_failed
                               else if h_subrange (ti_header transfer) \<noteq> subrange then Inl Assertion_failed
                               else
                                 (case write_data_to_buffer transfer s1 of
                                    Inl e \<Rightarrow> Inl e
                                  | Inr s2 \<Rightarrow> Inr (t_handle, s2))))
              | None \<Rightarrow>
                  (let (t_handle, s1) = make_handle \<lparr>ith_complete = False, ith_transfer = None\<rparr> s
                   in Inr (t_handle, s1\<lparr>push_blackboard := (push_blackboard s1)(source_cid \<mapsto> t_handle)\<rparr>)))
         | _ \<Rightarrow> Inl Assertion_failed))"

text \<open>
  The body of the loop of \<open>update_incoming_transfers\<close> for a transfer whose request is
  complete: with a waiter on the blackboard the entry is erased and the data are written,
  otherwise the transfer is parked in a fresh handle; either way the handle is marked
  complete.
\<close>

definition mark_complete :: "handle_ref \<Rightarrow> btm_state \<Rightarrow> fault + btm_state" where
  "mark_complete t_handle s =
     (case handles s t_handle of
        None \<Rightarrow> Inl Dangling_handle
      | Some h \<Rightarrow> Inr (s\<lparr>handles := (handles s)(t_handle \<mapsto> h\<lparr>ith_complete := True\<rparr>)\<rparr>))"

definition complete_transfer :: "transfer_in \<Rightarrow> btm_state \<Rightarrow> fault + btm_state" where
  "complete_transfer transfer s =
     (case push_blackboard s (h_push_cid (ti_header transfer)) of
        Some t_handle \<Rightarrow>
          (case write_data_to_buffer transfer
                  (s\<lparr>push_blackboard := (push_blackboard s)(h_push_cid (ti_header transfer) := None)\<rparr>) of
             Inl e \<Rightarrow> Inl e
           | Inr s1 \<Rightarrow> mark_complete t_handle s1)
      | None \<Rightarrow>
          (let (t_handle, s1) = make_handle \<lparr>ith_complete = False, ith_transfer = None\<rparr> s;
               s2 = s1\<lparr>push_blackboard := (push_blackboard s1)(h_push_cid (ti_header transfer) \<mapsto> t_handle)\<rparr>;
               s3 = s2\<lparr>handles := (handles s2)(t_handle \<mapsto>
                         \<lparr>ith_complete = False, ith_transfer = Some transfer\<rparr>)\<rparr>
           in mark_complete t_handle s3))"

text \<open>The loop: a transfer whose request is not complete stays in the list, the others are erased.\<close>

fun update_incoming_loop :: "transfer_in list \<Rightarrow> btm_state \<Rightarrow> fault + (transfer_in list \<times> btm_state)" where
  "update_incoming_loop [] s = Inr ([], s)"
| "update_incoming_loop (transfer # rest) s =
     (if \<not> ti_request_done transfer then
        (case update_incoming_loop rest s of
           Inl e \<Rightarrow> Inl e
         | Inr (kept, s1) \<Rightarrow> Inr (transfer # kept, s1))
      else
        (case complete_transfer transfer s of
           Inl e \<Rightarrow> Inl e
         | Inr s1 \<Rightarrow> update_incoming_loop rest s1))"

definition update_incoming_transfers :: "btm_state \<Rightarrow> fault + btm_state" where
  "update_incoming_transfers s =
     (case update_incoming_loop (incoming_transfers s) s of
        Inl e \<Rightarrow> Inl e
      | Inr (kept, s1) \<Rightarrow> Inr (s1\<lparr>incoming_transfers := kept\<rparr>))"

text \<open>The two orders of an \<open>await_push\<close> and a poll that completes incoming transfers.\<close>

definition await_then_arrive :: "command_pkg \<Rightarrow> btm_state \<Rightarrow> fault + (handle_ref \<times> btm_state)" where
  "await_then_arrive pkg s =
     (case await_push pkg s of
        Inl e \<Rightarrow> Inl e
      | Inr (t_handle, s1) \<Rightarrow>
          (case update_incoming_transfers s1 of Inl e \<Rightarrow> Inl e | Inr s2 \<Rightarrow> Inr (t_handle, s2)))"

definition arrive_then_await :: "command_pkg \<Rightarrow> btm_state \<Rightarrow> fault + (handle_ref \<times> btm_state)" where
  "arrive_then_await pkg s =
     (case update_incoming_transfers s of Inl e \<Rightarrow> Inl e | Inr s1 \<Rightarrow> await_push pkg s1)"

text \<open>Whether a handle is complete, as the job that holds it reads it.\<close>

definition handle_complete :: "btm_state \<Rightarrow> handle_ref \<Rightarrow> bool" where
  "handle_complete s t_handle = (case handles s t_handle of None \<Rightarrow> False | Some h \<Rightarrow> ith_complete h)"

section \<open>Dispatch and the executor loop (runtime.cc, \<open>TEST_do_work\<close>)\<close>

text \<open>
  The master walks the vertices of the command graph and sends every command that is no
  \<open>nop\<close> to its node, or keeps it in \<open>master_commands\<close> when the node is the master. The
  walk (\<open>graph_utils::search_vertex_bf\<close>, not part of the sources) is the list of the
  vertices it visits; the callback returns \<open>false\<close> at every vertex, so no vertex ends
  the walk. \<open>send_command\<close> is a blocking \<open>MPI_Send\<close>: the messages sent are recorded in
  order, and the send is taken to succeed.
\<close>

record vertex_data =
  v_tid :: task_id
  v_cid :: command_id
  v_cmd :: command_kind
  v_nid :: node_id
  v_data :: command_data

record dispatch_state =
  sent :: "(node_id \<times> command_pkg) list"
  master_commands :: "command_pkg list"
  d_next_cmd_id :: command_id

definition send_command :: "node_id \<Rightarrow> command_pkg \<Rightarrow> dispatch_state \<Rightarrow> dispatch_state" where
  "send_command target pkg d = d\<lparr>sent := sent d @ [(target, pkg)]\<rparr>"

definition pkg_of :: "vertex_data \<Rightarrow> command_pkg" where
  "pkg_of v = \<lparr>pkg_tid = v_tid v, pkg_cid = v_cid v, pkg_cmd = v_cmd v, pkg_data = v_data v\<rparr>"

definition dispatch_vertex :: "vertex_data \<Rightarrow> dispatch_state \<Rightarrow> dispatch_state" where
  "dispatch_vertex v d =
     (if v_cmd v = Nop then d
      else
        (let pkg = pkg_of v; target = v_nid v
         in if target \<noteq> 0 then send_command target pkg d
            else d\<lparr>master_commands := master_commands d @ [pkg]\<rparr>))"

definition shutdown_pkg :: "command_id \<Rightarrow> command_pkg" where
  "shutdown_pkg cid = \<lparr>pkg_tid = 0, pkg_cid = cid, pkg_cmd = Shutdown, pkg_data = No_data\<rparr>"

definition send_shutdown :: "node_id \<Rightarrow> dispatch_state \<Rightarrow> dispatch_state" where
  "send_shutdown n d =
     send_command n (shutdown_pkg (d_next_cmd_id d)) (d\<lparr>d_next_cmd_id := d_next_cmd_id d + 1\<rparr>)"

definition master_dispatch :: "nat \<Rightarrow> vertex_data list \<Rightarrow> dispatch_state \<Rightarrow> dispatch_state" where
  "master_dispatch num_nodes visited d =
     (let d1 = fold dispatch_vertex visited d;
          d2 = fold send_shutdown [1..<num_nodes] d1
      in d2\<lparr>master_commands := master_commands d2 @ [shutdown_pkg (d_next_cmd_id d2)],
            d_next_cmd_id := d_next_cmd_id d2 + 1\<rparr>)"

text \<open>
  \<open>TEST_do_work\<close> on the master: \<open>master_commands\<close> is a fresh local queue, and nothing has been
  sent yet.
\<close>

definition run_dispatch :: "command_id \<Rightarrow> nat \<Rightarrow> vertex_data list \<Rightarrow> dispatch_state" where
  "run_dispatch next_id num_nodes visited =
     master_dispatch num_nodes visited \<lparr>sent = [], master_commands = [], d_next_cmd_id = next_id\<rparr>"

text \<open>
  What a node receives: the master its \<open>master_commands\<close>, a worker the messages sent to it,
  in the order they were sent.
\<close>

definition delivered :: "node_id \<Rightarrow> dispatch_state \<Rightarrow> command_pkg list" where
  "delivered n d = map snd (filter (\<lambda>m. fst m = n) (sent d))"

definition received_by :: "node_id \<Rightarrow> dispatch_state \<Rightarrow> command_pkg list" where
  "received_by n d = (if n = 0 then master_commands d else delivered n d)"

definition shutdown_count :: "command_pkg list \<Rightarrow> nat" where
  "shutdown_count pkgs = length (filter (\<lambda>pkg. pkg_cmd pkg = Shutdown) pkgs)"

definition task_commands_for :: "node_id \<Rightarrow> vertex_data list \<Rightarrow> command_pkg list" where
  "task_commands_for n visited = map pkg_of (filter (\<lambda>v. v_cmd v \<noteq> Nop \<and> v_nid v = n) visited)"

text \<open>
  The loop of the executor. The job classes, \<open>create_job\<close> and the poll of the transfer
  manager are not part of the sources: a job is a value of any type, updated and asked
  whether it is done by functions of the environment, which act on a state of the rest
  of the node; a new job is put at the end of the list of jobs. A worker probes for a
  message; the probe of an iteration finds the next message sent to the node or finds none
  yet, as the environment tells by the number of the iteration.
\<close>

record ('j, 'w) executor_env =
  is_master :: bool
  poll :: "'w \<Rightarrow> 'w"
  job_update :: "'j \<Rightarrow> 'w \<Rightarrow> 'j \<times> 'w"
  job_is_done :: "'j \<Rightarrow> bool"
  create_job :: "command_pkg \<Rightarrow> 'w \<Rightarrow> 'j \<times> 'w"
  probe :: "nat \<Rightarrow> bool"

record ('j, 'w) executor_state =
  ex_done :: bool
  ex_jobs :: "'j list"
  ex_master_commands :: "command_pkg list"
  ex_inbox :: "command_pkg list"
  ex_world :: 'w
  ex_iteration :: nat

fun update_jobs :: "('j, 'w) executor_env \<Rightarrow> 'j list \<Rightarrow> 'w \<Rightarrow> 'j list \<times> 'w" where
  "update_jobs env [] w = ([], w)"
| "update_jobs env (job # rest) w =
     (let (job1, w1) = job_update env job w;
          (rest1, w2) = update_jobs env rest w1
      in (if job_is_done env job1 then rest1 else job1 # rest1, w2))"

definition handle_command_pkg ::
  "('j, 'w) executor_env \<Rightarrow> command_pkg \<Rightarrow> ('j, 'w) executor_state \<Rightarrow> fault + ('j, 'w) executor_state" where
  "handle_command_pkg env pkg st =
     (if pkg_cmd pkg = Push \<or> pkg_cmd pkg = Await_push \<or> pkg_cmd pkg = Compute
         \<or> pkg_cmd pkg = Master_access
      then (let (job, w) = create_job env pkg (ex_world st)
            in Inr (st\<lparr>ex_jobs := ex_jobs st @ [job], ex_world := w\<rparr>))
      else Inl Assertion_failed)"

definition receive_pkg ::
  "('j, 'w) executor_env \<Rightarrow> ('j, 'w) executor_state \<Rightarrow> command_pkg option \<times> ('j, 'w) executor_state" where
  "receive_pkg env st =
     (if \<not> is_master env then
        (if probe env (ex_iteration st) \<and> ex_inbox st \<noteq> []
         then (Some (hd (ex_inbox st)), st\<lparr>ex_inbox := tl (ex_inbox st)\<rparr>)
         else (None, st))
      else
        (if ex_master_commands st \<noteq> []
         then (Some (hd (ex_master_commands st)), st\<lparr>ex_master_commands := tl (ex_master_commands st)\<rparr>)
         else (None, st)))"

definition executor_step ::
  "('j, 'w) executor_env \<Rightarrow> ('j, 'w) executor_state \<Rightarrow> fault + ('j, 'w) executor_state" where
  "executor_step env st =
     (let w1 = poll env (ex_world st);
          (jobs1, w2) = update_jobs env (ex_jobs st) w1;
          (received, st1) = receive_pkg env (st\<lparr>ex_jobs := jobs1, ex_world := w2\<rparr>);
          st2 = st1\<lparr>ex_iteration := ex_iteration st1 + 1\<rparr>
      in case received of
           None \<Rightarrow> Inr st2
         | Some pkg \<Rightarrow>
             if pkg_cmd pkg = Shutdown then Inr (st2\<lparr>ex_done := True\<rparr>)
             else handle_command_pkg env pkg st2)"

text \<open>The loop may run forever: \<open>None\<close> is the run that never leaves it.\<close>

partial_function (option) executor_loop ::
  "('j, 'w) executor_env \<Rightarrow> ('j, 'w) executor_state \<Rightarrow> (fault + ('j, 'w) executor_state) option" where
  "executor_loop env st =
     (if \<not> ex_done st \<or> ex_jobs st \<noteq> [] then
        (case executor_step env st of
           Inl e \<Rightarrow> Some (Inl e)
         | Inr st1 \<Rightarrow> executor_loop env st1)
      else Some (Inr st))"

declare executor_loop.simps [code]

text \<open>The queue a node reads its commands from, and the state in which a node enters the loop.\<close>

definition queue_of :: "('j, 'w) executor_env \<Rightarrow> ('j, 'w) executor_state \<Rightarrow> command_pkg list" where
  "queue_of env st = (if is_master env then ex_master_commands st else ex_inbox st)"

definition executor_start :: "node_id \<Rightarrow> dispatch_state \<Rightarrow> 'j list \<Rightarrow> 'w \<Rightarrow> ('j, 'w) executor_state" where
  "executor_start n d jobs w =
     \<lparr>ex_done = False, ex_jobs = jobs,
      ex_master_commands = (if n = 0 then master_commands d else []),
      ex_inbox = delivered n d, ex_world = w, ex_iteration = 0\<rparr>"


section \<open>Concrete inputs\<close>

text \<open>A task of one dimension over 10 cells and a task of two dimensions over 10 by 4 cells, without buffers.\<close>

definition example_task_1 :: "unit compute_task" where
  "example_task_1 = \<lparr>ct_dimensions = 1, ct_global_size = Range_1 10, ct_range_mappers = []\<rparr>"

definition example_task_2 :: "unit compute_task" where
  "example_task_2 = \<lparr>ct_dimensions = 2, ct_global_size = Range_2 10 4, ct_range_mappers = []\<rparr>"








text \<open>
  Sequences of graph operations: one \<open>nop\<close> on node 0; two compute commands on node 0 with
  a dependency of the first on the second, then the same with the dependency removed
  again.
\<close>

definition example_ops_nop :: "graph_op list" where
  "example_ops_nop = [Create Nop 0 0]"

definition example_ops_dependency :: "graph_op list" where
  "example_ops_dependency = [Create Compute 0 7, Create Compute 0 8, Add_dependency 0 1 False]"

definition example_ops_removed :: "graph_op list" where
  "example_ops_removed =
     [Create Compute 0 7, Create Compute 0 8, Add_dependency 0 1 False, Remove_dependency 0 1]"

definition example_ops_two_nodes :: "graph_op list" where
  "example_ops_two_nodes = [Create Compute 0 7, Create Compute 1 8]"

text \<open>
  A transfer manager with one incoming transfer, complete, of three bytes for buffer 2
  from the push command 5, an empty blackboard and an empty storage for buffer 2; and
  the matching \<open>await_push\<close> package.
\<close>

definition example_transfer :: transfer_in where
  "example_transfer =
     \<lparr>ti_header = \<lparr>h_bid = 2, h_subrange = \<lparr>cs_offset = (0, 0, 0), cs_range = (3, 1, 1)\<rparr>, h_push_cid = 5\<rparr>,
      ti_data = [1, 2, 3], ti_request_done = True\<rparr>"

definition example_btm :: btm_state where
  "example_btm =
     \<lparr>push_blackboard = Map.empty, handles = Map.empty, next_handle = 0,
      incoming_transfers = [example_transfer], buffer_ptrs = [2 \<mapsto> Some []]\<rparr>"

definition example_await_push :: command_pkg where
  "example_await_push =
     \<lparr>pkg_tid = 0, pkg_cid = 6, pkg_cmd = Await_push,
      pkg_data = Await_push_data 2 5 \<lparr>cs_offset = (0, 0, 0), cs_range = (3, 1, 1)\<rparr>\<rparr>"

text \<open>An \<open>await_push\<close> package for the same push that names buffer 3.\<close>

definition example_await_push_other_buffer :: command_pkg where
  "example_await_push_other_buffer =
     \<lparr>pkg_tid = 0, pkg_cid = 6, pkg_cmd = Await_push,
      pkg_data = Await_push_data 3 5 \<lparr>cs_offset = (0, 0, 0), cs_range = (3, 1, 1)\<rparr>\<rparr>"

text \<open>
  A walk over four vertices for three nodes: a \<open>nop\<close>, a compute command on the master,
  and a compute and an \<open>await_push\<close> command on node 1. A job is the number of updates it
  still needs; a compute job needs two and any other job one. The probe of a worker
  finds a message at every second iteration.
\<close>

definition example_visited :: "vertex_data list" where
  "example_visited =
     [\<lparr>v_tid = 0, v_cid = 0, v_cmd = Nop, v_nid = 0, v_data = No_data\<rparr>,
      \<lparr>v_tid = 1, v_cid = 1, v_cmd = Compute, v_nid = 0, v_data = No_data\<rparr>,
      \<lparr>v_tid = 1, v_cid = 2, v_cmd = Compute, v_nid = 1, v_data = No_data\<rparr>,
      \<lparr>v_tid = 1, v_cid = 3, v_cmd = Await_push, v_nid = 1, v_data = No_data\<rparr>]"

definition example_env :: "bool \<Rightarrow> (nat, unit) executor_env" where
  "example_env master =
     \<lparr>is_master = master, poll = (\<lambda>w. w), job_update = (\<lambda>job w. (job - 1, w)),
      job_is_done = (\<lambda>job. job = 0),
      create_job = (\<lambda>pkg w. (if pkg_cmd pkg = Compute then 2 else 1, w)),
      probe = (\<lambda>i. even i)\<rparr>"


section \<open>Lemmas on split_equal\<close>

lemma split_equal_loop_closed:
  "length result = i \<Longrightarrow> i \<le> num_chunks \<Longrightarrow>
   split_equal_loop sr num_chunks i \<lparr>sr_start = s, sr_range = q, sr_global_size = g\<rparr> result =
   result @ map (\<lambda>j. \<lparr>sr_start = s + (j - i) * q,
                         sr_range = (if j = num_chunks - 1 then q + sr_range sr mod num_chunks else q),
                         sr_global_size = g\<rparr>) [i..<num_chunks]"
proof (induction "num_chunks - i" arbitrary: i s result)
  case 0
  then have "i = num_chunks" by simp
  then show ?case by (subst split_equal_loop.simps) simp
next
  case (Suc d)
  then have lt: "i < num_chunks" by simp
  have idx: "(result @ [c]) ! i = c" for c :: "nat subrange"
    using Suc.prems(1) by (simp add: nth_append)
  have upd: "(result @ [c])[i := c'] = result @ [c']" for c c' :: "nat subrange"
    using Suc.prems(1) by (simp add: list_update_append)
  let ?c = "\<lparr>sr_start = s, sr_range = q, sr_global_size = g\<rparr>"
  let ?r2 = "result @ [?c\<lparr>sr_range := (if i = num_chunks - 1 then q + sr_range sr mod num_chunks else q)\<rparr>]"
  have step: "split_equal_loop sr num_chunks i ?c result =
              split_equal_loop sr num_chunks (i + 1) \<lparr>sr_start = s + q, sr_range = q, sr_global_size = g\<rparr> ?r2"
  proof -
    have r2: "(if i = num_chunks - 1
               then (result @ [?c])[i := ((result @ [?c]) ! i)\<lparr>sr_range := sr_range ((result @ [?c]) ! i) + sr_range sr mod num_chunks\<rparr>]
               else result @ [?c]) = ?r2"
      unfolding idx upd by simp
    have "split_equal_loop sr num_chunks i ?c result =
          split_equal_loop sr num_chunks (i + 1) (?c\<lparr>sr_start := sr_start ?c + sr_range ?c\<rparr>)
            (if i = num_chunks - 1
               then (result @ [?c])[i := ((result @ [?c]) ! i)\<lparr>sr_range := sr_range ((result @ [?c]) ! i) + sr_range sr mod num_chunks\<rparr>]
               else result @ [?c])"
      using lt by (subst split_equal_loop.simps) (simp only: if_True Let_def)
    then show ?thesis unfolding r2 by simp
  qed
  have d: "d = num_chunks - (i + 1)" using Suc.hyps(2) by simp
  have len: "length ?r2 = i + 1" using Suc.prems(1) by simp
  have le: "i + 1 \<le> num_chunks" using lt by simp
  have ih: "split_equal_loop sr num_chunks (i + 1) \<lparr>sr_start = s + q, sr_range = q, sr_global_size = g\<rparr> ?r2 =
            ?r2 @ map (\<lambda>j. \<lparr>sr_start = s + q + (j - (i + 1)) * q,
                         sr_range = (if j = num_chunks - 1 then q + sr_range sr mod num_chunks else q),
                         sr_global_size = g\<rparr>) [i + 1..<num_chunks]"
    by (rule Suc.hyps(1) [OF d len le])
  have shift: "map (\<lambda>j. \<lparr>sr_start = s + q + (j - (i + 1)) * q,
                         sr_range = (if j = num_chunks - 1 then q + sr_range sr mod num_chunks else q),
                         sr_global_size = g\<rparr>) [i + 1..<num_chunks] =
               map (\<lambda>j. \<lparr>sr_start = s + (j - i) * q,
                         sr_range = (if j = num_chunks - 1 then q + sr_range sr mod num_chunks else q),
                         sr_global_size = g\<rparr>) [i + 1..<num_chunks]"
  proof (rule map_cong [OF refl])
    fix j assume "j \<in> set [i + 1..<num_chunks]"
    then have "i < j" by simp
    then have "q + (j - (i + 1)) * q = (j - i) * q"
      by (metis Suc_diff_Suc Suc_eq_plus1 mult_Suc)
    then show "\<lparr>sr_start = s + q + (j - (i + 1)) * q,
                 sr_range = (if j = num_chunks - 1 then q + sr_range sr mod num_chunks else q),
                 sr_global_size = g\<rparr> =
               \<lparr>sr_start = s + (j - i) * q,
                 sr_range = (if j = num_chunks - 1 then q + sr_range sr mod num_chunks else q),
                 sr_global_size = g\<rparr>"
      by simp
  qed
  have unfold_upt: "[i..<num_chunks] = i # [i + 1..<num_chunks]"
    using lt by (simp add: upt_conv_Cons)
  show ?case
    unfolding step ih shift unfold_upt by simp
qed


lemma split_equal_1_closed:
  assumes "0 < n"
  shows "split_equal_1 sr n = Inr (map (nth_chunk (sr_global_size sr) (sr_range sr) n) [0..<n])"
proof -
  have "split_equal_loop sr n 0 \<lparr>sr_start = 0, sr_range = sr_range sr div n, sr_global_size = sr_global_size sr\<rparr> [] =
        [] @ map (\<lambda>j. \<lparr>sr_start = 0 + (j - 0) * (sr_range sr div n),
                         sr_range = (if j = n - 1 then sr_range sr div n + sr_range sr mod n else sr_range sr div n),
                         sr_global_size = sr_global_size sr\<rparr>) [0..<n]"
    by (rule split_equal_loop_closed) simp_all
  then show ?thesis using assms by (simp add: split_equal_1_def nth_chunk_def)
qed

lemma cells_nth_chunk_inner:
  "j < n - 1 \<Longrightarrow> cells_1 (nth_chunk g r n j) = {j * (r div n) ..< (j + 1) * (r div n)}"
  by (simp add: cells_1_def nth_chunk_def add.commute)

lemma cells_nth_chunk_last:
  assumes "0 < n"
  shows "cells_1 (nth_chunk g r n (n - 1)) = {(n - 1) * (r div n) ..< r}"
proof -
  have "(n - 1) * (r div n) + (r div n + r mod n) = n * (r div n) + r mod n"
    using assms by (cases n) simp_all
  also have "\<dots> = r" by simp
  finally show ?thesis by (simp add: cells_1_def nth_chunk_def)
qed

lemma last_start_le: "(n - 1) * (r div n) \<le> (r::nat)"
proof -
  have "(n - 1) * (r div n) \<le> n * (r div n)" by (simp add: mult_le_mono1)
  also have "\<dots> \<le> r" by simp
  finally show ?thesis .
qed

lemma cells_union:
  assumes "0 < n"
  shows "(\<Union>j\<in>{0..<n}. cells_1 (nth_chunk g r n j)) = {0..<r}"
proof (rule set_eqI, rule iffI)
  fix x assume "x \<in> (\<Union>j\<in>{0..<n}. cells_1 (nth_chunk g r n j))"
  then obtain j where j: "j < n" and x: "x \<in> cells_1 (nth_chunk g r n j)" by auto
  show "x \<in> {0..<r}"
  proof (cases "j = n - 1")
    case True
    with x have "x \<in> cells_1 (nth_chunk g r n (n - 1))" by simp
    then show ?thesis using cells_nth_chunk_last [OF assms, of g r] by simp
  next
    case False
    with j have jl: "j < n - 1" by simp
    with x have "x < (j + 1) * (r div n)" by (simp add: cells_nth_chunk_inner)
    also have "\<dots> \<le> (n - 1) * (r div n)" using jl by (intro mult_le_mono1) simp
    also have "\<dots> \<le> r" by (rule last_start_le)
    finally show ?thesis by simp
  qed
next
  fix x assume "x \<in> {0..<r}"
  then have xr: "x < r" by simp
  show "x \<in> (\<Union>j\<in>{0..<n}. cells_1 (nth_chunk g r n j))"
  proof (cases "x < (n - 1) * (r div n)")
    case True
    then have q: "0 < r div n" by (cases "r div n = 0") simp_all
    let ?j = "x div (r div n)"
    have jl: "?j < n - 1" using True q by (simp add: less_mult_imp_div_less)
    have lo: "?j * (r div n) \<le> x" by simp
    have hi: "x < (?j + 1) * (r div n)" using q
      by (metis Suc_eq_plus1 dividend_less_div_times mult.commute mult_Suc_right add.commute)
    have "x \<in> cells_1 (nth_chunk g r n ?j)" using lo hi jl by (simp add: cells_nth_chunk_inner)
    moreover have "?j \<in> {0..<n}" using jl by simp
    ultimately show ?thesis by blast
  next
    case False
    then have "x \<in> cells_1 (nth_chunk g r n (n - 1))"
      using xr cells_nth_chunk_last [OF assms, of g r] by simp
    moreover have "n - 1 \<in> {0..<n}" using assms by simp
    ultimately show ?thesis by blast
  qed
qed

lemma cells_disjoint:
  assumes "i < j" "j < n"
  shows "cells_1 (nth_chunk g r n i) \<inter> cells_1 (nth_chunk g r n j) = {}"
proof -
  have il: "i < n - 1" using assms by simp
  have "(i + 1) * (r div n) \<le> j * (r div n)" using assms by (intro mult_le_mono1) simp
  moreover have "cells_1 (nth_chunk g r n j) \<subseteq> {j * (r div n) ..}"
    by (auto simp: cells_1_def nth_chunk_def)
  ultimately show ?thesis using il by (auto simp: cells_nth_chunk_inner)
qed


lemma nth_chunks_contiguous:
  "i + 1 < n \<Longrightarrow> sr_start (nth_chunk g r n (i + 1)) = sr_start (nth_chunk g r n i) + sr_range (nth_chunk g r n i)"
  by (simp add: nth_chunk_def)

lemma cells_union_list:
  assumes "0 < n"
  shows "(\<Union>c\<in>set (map (nth_chunk g r n) [0..<n]). cells_1 c) = {0..<r}"
  using cells_union [OF assms, of g r] by simp

text \<open>No chunk reaches beyond the range that is split: the sums of the loop stay below it.\<close>

lemma split_equal_1_bounded:
  assumes "0 < n" and "split_equal_1 sr n = Inr chunks" and "c \<in> set chunks"
  shows "sr_start c + sr_range c \<le> sr_range sr"
proof -
  let ?r = "sr_range sr"
  from assms(2) have "chunks = map (nth_chunk (sr_global_size sr) ?r n) [0..<n]"
    by (simp add: split_equal_1_closed [OF assms(1)])
  with assms(3) obtain j where j: "j < n" and c: "c = nth_chunk (sr_global_size sr) ?r n j"
    by auto
  show ?thesis
  proof (cases "j = n - 1")
    case True
    have "(n - 1) * (?r div n) + (?r div n + ?r mod n) = n * (?r div n) + ?r mod n"
      using assms(1) by (cases n) simp_all
    also have "\<dots> = ?r" by simp
    finally show ?thesis using True c by (simp add: nth_chunk_def)
  next
    case False
    with j have "j + 1 \<le> n - 1" by simp
    then have "(j + 1) * (?r div n) \<le> (n - 1) * (?r div n)" by (rule mult_le_mono1)
    also have "\<dots> \<le> ?r" by (rule last_start_le)
    finally show ?thesis using False c by (simp add: nth_chunk_def)
  qed
qed

text \<open>
  C10. For every one-dimensional subrange \<open>sr\<close> and every \<open>num_chunks > 0\<close>,
  \<open>split_equal\<close> returns \<open>num_chunks\<close> chunks whose offsets start at 0, each chunk
  starting where the one before ends, pairwise disjoint, and covering exactly
  \<open>[0, sr.range)\<close>; the result is the same for every \<open>sr.start\<close>. Whenever \<open>sr.start\<close>
  is not 0 and the range is not empty, the cells of the chunks differ from
  \<open>[sr.start, sr.start + sr.range)\<close>.
\<close>

theorem split_equal_1_ignores_start:
  assumes "0 < num_chunks"
  shows "\<exists>chunks. split_equal_1 sr num_chunks = Inr chunks
           \<and> length chunks = num_chunks
           \<and> sr_start (chunks ! 0) = 0
           \<and> (\<forall>i. i + 1 < num_chunks \<longrightarrow>
                 sr_start (chunks ! (i + 1)) = sr_start (chunks ! i) + sr_range (chunks ! i))
           \<and> (\<Union>c\<in>set chunks. cells_1 c) = {0..<sr_range sr}
           \<and> (\<forall>i j. i < j \<and> j < num_chunks \<longrightarrow> cells_1 (chunks ! i) \<inter> cells_1 (chunks ! j) = {})
           \<and> (\<forall>s. split_equal_1 (sr\<lparr>sr_start := s\<rparr>) num_chunks = Inr chunks)
           \<and> (sr_start sr \<noteq> 0 \<and> 0 < sr_range sr \<longrightarrow> (\<Union>c\<in>set chunks. cells_1 c) \<noteq> cells_1 sr)"
proof -
  let ?cs = "map (nth_chunk (sr_global_size sr) (sr_range sr) num_chunks) [0..<num_chunks]"
  have eq: "split_equal_1 sr num_chunks = Inr ?cs"
    by (rule split_equal_1_closed [OF assms])
  have len: "length ?cs = num_chunks" by simp
  have first: "sr_start (?cs ! 0) = 0" using assms by (simp add: nth_chunk_def)
  have contiguous: "\<forall>i. i + 1 < num_chunks \<longrightarrow>
                 sr_start (?cs ! (i + 1)) = sr_start (?cs ! i) + sr_range (?cs ! i)"
    by (simp add: nth_chunk_def)
  have union: "(\<Union>c\<in>set ?cs. cells_1 c) = {0..<sr_range sr}"
    by (rule cells_union_list [OF assms])
  have disjoint: "\<forall>i j. i < j \<and> j < num_chunks \<longrightarrow> cells_1 (?cs ! i) \<inter> cells_1 (?cs ! j) = {}"
    using cells_disjoint by simp
  have ignores: "\<forall>s. split_equal_1 (sr\<lparr>sr_start := s\<rparr>) num_chunks = Inr ?cs"
    using split_equal_1_closed [OF assms] by simp
  have differs: "sr_start sr \<noteq> 0 \<and> 0 < sr_range sr \<longrightarrow> (\<Union>c\<in>set ?cs. cells_1 c) \<noteq> cells_1 sr"
  proof
    assume a: "sr_start sr \<noteq> 0 \<and> 0 < sr_range sr"
    then have "0 \<in> {0..<sr_range sr}" and "0 \<notin> cells_1 sr" by (simp_all add: cells_1_def)
    then show "(\<Union>c\<in>set ?cs. cells_1 c) \<noteq> cells_1 sr" unfolding union by blast
  qed
  show ?thesis
    using eq len first contiguous union disjoint ignores differs by blast
qed

theorem split_equal_1_ignores_start_witness:
  "(0::nat) < 3
   \<and> split_equal_1 \<lparr>sr_start = 5, sr_range = 10, sr_global_size = 20\<rparr> 3 =
       Inr [\<lparr>sr_start = 0, sr_range = 3, sr_global_size = 20\<rparr>,
            \<lparr>sr_start = 3, sr_range = 3, sr_global_size = 20\<rparr>,
            \<lparr>sr_start = 6, sr_range = 4, sr_global_size = 20\<rparr>]
   \<and> (\<exists>chunks. split_equal_1 \<lparr>sr_start = 5, sr_range = 10, sr_global_size = 20\<rparr> 3 = Inr chunks
           \<and> length chunks = 3
           \<and> sr_start (chunks ! 0) = 0
           \<and> (\<Union>c\<in>set chunks. cells_1 c) = {0..<10}
           \<and> (\<Union>c\<in>set chunks. cells_1 c) \<noteq> cells_1 \<lparr>sr_start = 5, sr_range = 10, sr_global_size = 20\<rparr>)"
proof -
  have pos: "(0::nat) < 3" by simp
  have val: "split_equal_1 \<lparr>sr_start = 5, sr_range = 10, sr_global_size = 20\<rparr> 3 =
       Inr [\<lparr>sr_start = 0, sr_range = 3, sr_global_size = 20\<rparr>,
            \<lparr>sr_start = 3, sr_range = 3, sr_global_size = 20\<rparr>,
            \<lparr>sr_start = 6, sr_range = 4, sr_global_size = 20\<rparr>]"
    by (simp add: split_equal_1_def split_equal_loop.simps)
  show ?thesis
    using split_equal_1_ignores_start [OF pos, of "\<lparr>sr_start = 5, sr_range = 10, sr_global_size = 20\<rparr>"] pos val
    by auto
qed


section \<open>The chunks of a task\<close>

lemma split_equal_2_closed:
  assumes "0 < n"
  shows "split_equal_2 sr n =
         Inr (map (\<lambda>row. \<lparr>sr_start = (sr_start row, snd (sr_start sr)),
                            sr_range = (sr_range row, snd (sr_range sr)),
                            sr_global_size = sr_global_size sr\<rparr>)
                (map (nth_chunk (fst (sr_global_size sr)) (fst (sr_range sr)) n) [0..<n]))"
  by (simp add: split_equal_2_def split_equal_1_closed [OF assms])

lemma task_chunks_1:
  assumes "1 \<le> num_nodes" "ct_dimensions ctsk = 1" "ct_global_size ctsk = Range_1 r"
  shows "task_chunks num_nodes ctsk =
         Inr (map Chunk_1 (map (nth_chunk r r (max (num_nodes - 1) 1)) [0..<max (num_nodes - 1) 1]))"
proof -
  define n where "n = max (num_nodes - 1) 1"
  have pos: "0 < n" by (simp add: n_def)
  have nw: "num_worker_nodes_of num_nodes = n"
    using assms(1) by (simp add: n_def num_worker_nodes_of_def)
  have "task_chunks num_nodes ctsk = Inr (map Chunk_1 (map (nth_chunk r r n) [0..<n]))"
    using assms(2,3)
    by (simp add: task_chunks_def template_dims_def split_task_def nw split_equal_1_closed [OF pos])
  then show ?thesis by (simp only: n_def)
qed

lemma task_chunks_2:
  assumes "1 \<le> num_nodes" "ct_dimensions ctsk = 2" "ct_global_size ctsk = Range_2 r0 r1"
  shows "task_chunks num_nodes ctsk =
         Inr (map Chunk_2 (map (\<lambda>row. \<lparr>sr_start = (sr_start row, 0), sr_range = (sr_range row, r1),
                                          sr_global_size = (r0, r1)\<rparr>)
                (map (nth_chunk r0 r0 (max (num_nodes - 1) 1)) [0..<max (num_nodes - 1) 1])))"
proof -
  define n where "n = max (num_nodes - 1) 1"
  have pos: "0 < n" by (simp add: n_def)
  have nw: "num_worker_nodes_of num_nodes = n"
    using assms(1) by (simp add: n_def num_worker_nodes_of_def)
  have "task_chunks num_nodes ctsk =
         Inr (map Chunk_2 (map (\<lambda>row. \<lparr>sr_start = (sr_start row, 0), sr_range = (sr_range row, r1),
                                          sr_global_size = (r0, r1)\<rparr>)
                (map (nth_chunk r0 r0 n) [0..<n])))"
    using assms(2,3)
    by (simp add: task_chunks_def template_dims_def split_task_def nw split_equal_2_closed [OF pos])
  then show ?thesis by (simp only: n_def)
qed

lemma cells_2_row:
  "cells_2 \<lparr>sr_start = (sr_start row, 0), sr_range = (sr_range row, r1), sr_global_size = g\<rparr>
   = cells_1 row \<times> {0..<r1}"
  by (simp add: cells_2_def cells_1_def)

lemma partition_1:
  fixes g r n :: nat
  assumes "0 < n"
  defines "cs \<equiv> map (nth_chunk g r n) [0..<n]"
  shows "length cs = n"
    and "\<forall>i<length cs. sr_start (cs ! i) = i * (r div length cs)
            \<and> sr_range (cs ! i) = (if i = length cs - 1 then r div length cs + r mod length cs else r div length cs)"
    and "(\<Union>c\<in>set cs. cells_1 c) = {0..<r}"
    and "\<forall>i j. i < j \<and> j < length cs \<longrightarrow> cells_1 (cs ! i) \<inter> cells_1 (cs ! j) = {}"
proof -
  show "length cs = n" by (simp add: cs_def)
  show "\<forall>i<length cs. sr_start (cs ! i) = i * (r div length cs)
            \<and> sr_range (cs ! i) = (if i = length cs - 1 then r div length cs + r mod length cs else r div length cs)"
    by (simp add: cs_def nth_chunk_def)
  show "(\<Union>c\<in>set cs. cells_1 c) = {0..<r}"
    unfolding cs_def by (rule cells_union_list [OF assms(1)])
  show "\<forall>i j. i < j \<and> j < length cs \<longrightarrow> cells_1 (cs ! i) \<inter> cells_1 (cs ! j) = {}"
    using cells_disjoint by (simp add: cs_def)
qed

lemma partition_2:
  fixes g g0 g1 r0 r1 n :: nat
  assumes "0 < n"
  defines "cs \<equiv> map (\<lambda>row. \<lparr>sr_start = (sr_start row, 0), sr_range = (sr_range row, r1),
                                 sr_global_size = (g0, g1)\<rparr>) (map (nth_chunk g r0 n) [0..<n])"
  shows "length cs = n"
    and "\<forall>i<length cs. sr_start (cs ! i) = (i * (r0 div length cs), 0)
            \<and> sr_range (cs ! i) =
                ((if i = length cs - 1 then r0 div length cs + r0 mod length cs else r0 div length cs), r1)"
    and "(\<Union>c\<in>set cs. cells_2 c) = {0..<r0} \<times> {0..<r1}"
    and "\<forall>i j. i < j \<and> j < length cs \<longrightarrow> cells_2 (cs ! i) \<inter> cells_2 (cs ! j) = {}"
proof -
  show "length cs = n" by (simp add: cs_def)
  show "\<forall>i<length cs. sr_start (cs ! i) = (i * (r0 div length cs), 0)
            \<and> sr_range (cs ! i) =
                ((if i = length cs - 1 then r0 div length cs + r0 mod length cs else r0 div length cs), r1)"
    by (simp add: cs_def nth_chunk_def)
  have "(\<Union>c\<in>set cs. cells_2 c) = (\<Union>c\<in>set (map (nth_chunk g r0 n) [0..<n]). cells_1 c \<times> {0..<r1})"
    by (simp add: cs_def cells_2_row)
  also have "\<dots> = (\<Union>c\<in>set (map (nth_chunk g r0 n) [0..<n]). cells_1 c) \<times> {0..<r1}"
    by blast
  also have "\<dots> = {0..<r0} \<times> {0..<r1}"
    by (simp only: cells_union_list [OF assms(1)])
  finally show "(\<Union>c\<in>set cs. cells_2 c) = {0..<r0} \<times> {0..<r1}" .
  show "\<forall>i j. i < j \<and> j < length cs \<longrightarrow> cells_2 (cs ! i) \<inter> cells_2 (cs ! j) = {}"
  proof (intro allI impI)
    fix i j assume ij: "i < j \<and> j < length cs"
    then have "j < n" and "i < n" by (simp_all add: cs_def)
    moreover have "cells_1 (nth_chunk g r0 n i) \<inter> cells_1 (nth_chunk g r0 n j) = {}"
      using ij cells_disjoint [of i j n g r0] by (simp add: cs_def)
    ultimately show "cells_2 (cs ! i) \<inter> cells_2 (cs ! j) = {}"
      by (simp add: cs_def cells_2_row) blast
  qed
qed

text \<open>
  C8. For every subrange of three dimensions and every chunk count, \<open>split_equal\<close>
  throws (\<open>std::runtime_error\<close>, "3D split_equal NYI") and returns no chunk list; so
  does the split of a task of three dimensions.
\<close>

theorem split_equal_3_throws:
  "split_equal_3 sr num_chunks = Inl (Runtime_error ''3D split_equal NYI'')
   \<and> (\<forall>chunks. split_equal_3 sr num_chunks \<noteq> Inr chunks)
   \<and> (\<forall>chunks. split_task 3 (Range_3 r0 r1 r2) num_chunks \<noteq> Inr chunks)"
  by (simp add: split_equal_3_def split_task_def)

text \<open>
  C1. For every compute task of one or two dimensions and every \<open>num_nodes \<ge> 1\<close>, the
  iteration space is split into \<open>max (num_nodes - 1) 1\<close> chunks along dimension 0.
  Chunk \<open>i\<close> starts at \<open>i * (range div num_chunks)\<close> and has
  \<open>range div num_chunks\<close> rows, the last chunk has the remainder in addition; in two
  dimensions every chunk has all columns. The cells of the chunks are pairwise
  disjoint and their union is the global range of the task.
\<close>

theorem compute_task_partition:
  assumes "1 \<le> num_nodes"
  shows "(ct_dimensions ctsk = 1 \<and> ct_global_size ctsk = Range_1 r \<longrightarrow>
           (\<exists>cs. task_chunks num_nodes ctsk = Inr (map Chunk_1 cs)
              \<and> length cs = max (num_nodes - 1) 1
              \<and> (\<forall>i<length cs. sr_start (cs ! i) = i * (r div length cs)
                    \<and> sr_range (cs ! i) =
                        (if i = length cs - 1 then r div length cs + r mod length cs else r div length cs))
              \<and> (\<Union>c\<in>set cs. cells_1 c) = {0..<r}
              \<and> (\<forall>i j. i < j \<and> j < length cs \<longrightarrow> cells_1 (cs ! i) \<inter> cells_1 (cs ! j) = {})))
       \<and> (ct_dimensions ctsk = 2 \<and> ct_global_size ctsk = Range_2 r0 r1 \<longrightarrow>
           (\<exists>cs. task_chunks num_nodes ctsk = Inr (map Chunk_2 cs)
              \<and> length cs = max (num_nodes - 1) 1
              \<and> (\<forall>i<length cs. sr_start (cs ! i) = (i * (r0 div length cs), 0)
                    \<and> sr_range (cs ! i) =
                        ((if i = length cs - 1 then r0 div length cs + r0 mod length cs else r0 div length cs), r1))
              \<and> (\<Union>c\<in>set cs. cells_2 c) = {0..<r0} \<times> {0..<r1}
              \<and> (\<forall>i j. i < j \<and> j < length cs \<longrightarrow> cells_2 (cs ! i) \<inter> cells_2 (cs ! j) = {})))"
proof (intro conjI impI)
  have pos: "0 < max (num_nodes - 1) 1" by simp
  {
    assume a: "ct_dimensions ctsk = 1 \<and> ct_global_size ctsk = Range_1 r"
    show "\<exists>cs. task_chunks num_nodes ctsk = Inr (map Chunk_1 cs)
              \<and> length cs = max (num_nodes - 1) 1
              \<and> (\<forall>i<length cs. sr_start (cs ! i) = i * (r div length cs)
                    \<and> sr_range (cs ! i) =
                        (if i = length cs - 1 then r div length cs + r mod length cs else r div length cs))
              \<and> (\<Union>c\<in>set cs. cells_1 c) = {0..<r}
              \<and> (\<forall>i j. i < j \<and> j < length cs \<longrightarrow> cells_1 (cs ! i) \<inter> cells_1 (cs ! j) = {})"
      using task_chunks_1 [OF assms, of ctsk r] a partition_1 [OF pos, of r r]
      by blast
  }
  {
    assume a: "ct_dimensions ctsk = 2 \<and> ct_global_size ctsk = Range_2 r0 r1"
    show "\<exists>cs. task_chunks num_nodes ctsk = Inr (map Chunk_2 cs)
              \<and> length cs = max (num_nodes - 1) 1
              \<and> (\<forall>i<length cs. sr_start (cs ! i) = (i * (r0 div length cs), 0)
                    \<and> sr_range (cs ! i) =
                        ((if i = length cs - 1 then r0 div length cs + r0 mod length cs else r0 div length cs), r1))
              \<and> (\<Union>c\<in>set cs. cells_2 c) = {0..<r0} \<times> {0..<r1}
              \<and> (\<forall>i j. i < j \<and> j < length cs \<longrightarrow> cells_2 (cs ! i) \<inter> cells_2 (cs ! j) = {})"
      using task_chunks_2 [OF assms, of ctsk r0 r1] a partition_2 [OF pos, of r1 r0 r1 r0 r0]
      by blast
  }
qed


theorem compute_task_partition_witness:
  "(1::nat) \<le> 4
   \<and> task_chunks 4 example_task_1 =
       Inr [Chunk_1 \<lparr>sr_start = 0, sr_range = 3, sr_global_size = 10\<rparr>,
            Chunk_1 \<lparr>sr_start = 3, sr_range = 3, sr_global_size = 10\<rparr>,
            Chunk_1 \<lparr>sr_start = 6, sr_range = 4, sr_global_size = 10\<rparr>]
   \<and> (\<exists>cs. task_chunks 4 example_task_1 = Inr (map Chunk_1 cs) \<and> length cs = 3
          \<and> (\<Union>c\<in>set cs. cells_1 c) = {0..<10})
   \<and> task_chunks 4 example_task_2 =
       Inr [Chunk_2 \<lparr>sr_start = (0, 0), sr_range = (3, 4), sr_global_size = (10, 4)\<rparr>,
            Chunk_2 \<lparr>sr_start = (3, 0), sr_range = (3, 4), sr_global_size = (10, 4)\<rparr>,
            Chunk_2 \<lparr>sr_start = (6, 0), sr_range = (4, 4), sr_global_size = (10, 4)\<rparr>]
   \<and> (\<exists>cs. task_chunks 4 example_task_2 = Inr (map Chunk_2 cs) \<and> length cs = 3
          \<and> (\<Union>c\<in>set cs. cells_2 c) = {0..<10} \<times> {0..<4})"
proof -
  have h: "(1::nat) \<le> 4" by simp
  have d1: "ct_dimensions example_task_1 = 1 \<and> ct_global_size example_task_1 = Range_1 10"
    by (simp add: example_task_1_def)
  have d2: "ct_dimensions example_task_2 = 2 \<and> ct_global_size example_task_2 = Range_2 10 4"
    by (simp add: example_task_2_def)
  have m: "max ((4::nat) - 1) 1 = 3" by simp
  have v1: "task_chunks 4 example_task_1 =
       Inr [Chunk_1 \<lparr>sr_start = 0, sr_range = 3, sr_global_size = 10\<rparr>,
            Chunk_1 \<lparr>sr_start = 3, sr_range = 3, sr_global_size = 10\<rparr>,
            Chunk_1 \<lparr>sr_start = 6, sr_range = 4, sr_global_size = 10\<rparr>]"
    by (simp add: example_task_1_def task_chunks_def template_dims_def split_task_def
        num_worker_nodes_of_def split_equal_1_def split_equal_loop.simps)
  have v2: "task_chunks 4 example_task_2 =
       Inr [Chunk_2 \<lparr>sr_start = (0, 0), sr_range = (3, 4), sr_global_size = (10, 4)\<rparr>,
            Chunk_2 \<lparr>sr_start = (3, 0), sr_range = (3, 4), sr_global_size = (10, 4)\<rparr>,
            Chunk_2 \<lparr>sr_start = (6, 0), sr_range = (4, 4), sr_global_size = (10, 4)\<rparr>]"
    by (simp add: example_task_2_def task_chunks_def template_dims_def split_task_def
        num_worker_nodes_of_def split_equal_2_def split_equal_1_def split_equal_loop.simps)
  have e1: "\<exists>cs. task_chunks 4 example_task_1 = Inr (map Chunk_1 cs) \<and> length cs = 3
          \<and> (\<Union>c\<in>set cs. cells_1 c) = {0..<10}"
  proof -
    from compute_task_partition [OF h, of example_task_1 10, THEN conjunct1, rule_format, OF d1]
    obtain cs where "task_chunks 4 example_task_1 = Inr (map Chunk_1 cs)"
      and "length cs = max (4 - 1) 1" and "(\<Union>c\<in>set cs. cells_1 c) = {0..<10}"
      by blast
    then show ?thesis unfolding m by blast
  qed
  have e2: "\<exists>cs. task_chunks 4 example_task_2 = Inr (map Chunk_2 cs) \<and> length cs = 3
          \<and> (\<Union>c\<in>set cs. cells_2 c) = {0..<10} \<times> {0..<4}"
  proof -
    from compute_task_partition [OF h, of example_task_2 _ 10 4, THEN conjunct2, rule_format, OF d2]
    obtain cs where "task_chunks 4 example_task_2 = Inr (map Chunk_2 cs)"
      and "length cs = max (4 - 1) 1" and "(\<Union>c\<in>set cs. cells_2 c) = {0..<10} \<times> {0..<4}"
      by blast
    then show ?thesis unfolding m by blast
  qed
  show ?thesis using h v1 e1 v2 e2 by (intro conjI)
qed


section \<open>The node assignment\<close>













text \<open>
  For a chunk whose first buffer settles the first buffer that is read, the source
  nodes the code looks at are among the source nodes of the first buffer that is read.
\<close>

lemma spec_first_read_sources_none:
  "list_all (\<lambda>entry. snd entry Mode_read = None) entries \<Longrightarrow> spec_first_read_sources gsn vbr entries = {}"
  by (induction entries) auto

lemma first_buffer_sources_first_read:
  assumes "first_buffer_decides entries"
  shows "set (first_buffer_sources gsn vbr entries) \<subseteq> spec_first_read_sources gsn vbr entries"
proof (cases entries)
  case Nil
  then show ?thesis by (simp add: first_buffer_sources_def)
next
  case (Cons e rest)
  obtain bid modes where e: "e = (bid, modes)" by (cases e)
  show ?thesis
  proof (cases "modes Mode_read")
    case None
    then show ?thesis by (simp add: Cons e first_buffer_sources_def)
  next
    case (Some read_req)
    show ?thesis
    proof (cases "vbr bid")
      case None
      then show ?thesis by (simp add: Cons e Some first_buffer_sources_def)
    next
      case (Some bs)
      show ?thesis
      proof (cases "gsn bs read_req")
        case Nil
        then show ?thesis
          by (simp add: Cons e \<open>modes Mode_read = Some read_req\<close> Some first_buffer_sources_def)
      next
        case (Cons box rest_boxes)
        then show ?thesis
          by (cases box)
             (auto simp add: \<open>entries = e # rest\<close> e \<open>modes Mode_read = Some read_req\<close> Some
                first_buffer_sources_def)
      qed
    qed
  qed
qed




text \<open>A task without range mappers: the requirement map stays empty and the lookup of chunk 0 throws.\<close>

lemma process_compute_task_no_buffers:
  assumes "ct_range_mappers ctsk = []"
    and "split_task dims (ct_global_size ctsk) num_worker_nodes = Inr chunks" and "chunks \<noteq> []"
    and "ct_dimensions ctsk = dims"
  shows "process_compute_task nid_max gsn slot merge empty_region dims ctsk num_worker_nodes master_only
           vbr Map.empty cbs = Inl Out_of_range"
proof -
  have "0 < length chunks" using assms(3) by simp
  then have "assign_chunks_to_nodes nid_max gsn (length chunks) Map.empty vbr
               (initial_free_nodes num_worker_nodes master_only) cbs = Inl Out_of_range"
    by (simp add: assign_chunks_to_nodes_def assign_chunks_loop.simps)
  then show ?thesis using assms by (simp add: process_compute_task_def)
qed

text \<open>
  C6. A compute task without range mappers, of one dimension on two nodes and of two
  dimensions on one node: the lowering of the task does not return. The requirement
  map of the chunks is empty, and \<open>assign_chunks_to_nodes\<close> throws
  \<open>std::out_of_range\<close> at \<open>chunk_reqs.at(0)\<close>; no compute command is created.
\<close>

theorem no_buffer_task_throws:
  "build_compute_task nid_max gsn slot merge empty_region 2 example_task_1 vbr = Inl Out_of_range
   \<and> build_compute_task nid_max gsn slot merge empty_region 1 example_task_2 vbr = Inl Out_of_range"
  by (simp add: build_compute_task_def process_compute_task_def template_dims_def num_worker_nodes_of_def
      example_task_1_def example_task_2_def split_task_def split_equal_2_def split_equal_1_def
      split_equal_loop.simps assign_chunks_to_nodes_def assign_chunks_loop.simps)


section \<open>The invariants of the command graph\<close>

lemma has_dependents_iff: "has_dependents g c \<longleftrightarrow> (\<exists>d<next_cmd_id g. depends_on g d c)"
  by (auto simp: has_dependents_def list_ex_iff)

lemma mem_work_without_dependents:
  "c \<in> work_without_dependents g n \<longleftrightarrow>
   c < next_cmd_id g \<and> on_node g n c \<and> \<not> is_nop g c \<and> \<not> has_dependents g c"
  by (auto simp: work_without_dependents_def)


lemma graph_wf_next: "graph_wf g \<Longrightarrow> commands g (next_cmd_id g) = None"
proof -
  assume "graph_wf g"
  then have "next_cmd_id g \<notin> dom (commands g)" by (simp add: graph_wf_def)
  then show ?thesis by blast
qed

lemma graph_wf_Some: "graph_wf g \<Longrightarrow> commands g c = Some cmd \<Longrightarrow> c < next_cmd_id g"
proof -
  assume "graph_wf g" and "commands g c = Some cmd"
  then have "c \<in> {0..<next_cmd_id g}" unfolding graph_wf_def by blast
  then show ?thesis by simp
qed

lemma depends_on_wf: "graph_wf g \<Longrightarrow> depends_on g d c \<Longrightarrow> d < next_cmd_id g"
  by (auto simp: depends_on_def dest: graph_wf_Some split: option.splits)

text \<open>The effect of \<open>create\<close> on a well-formed graph.\<close>

lemma create_next: "next_cmd_id (snd (create kind nid tid g)) = next_cmd_id g + 1"
  by (simp add: create_def Let_def)

lemma create_commands:
  "graph_wf g \<Longrightarrow>
   commands (snd (create kind nid tid g)) =
   (commands g)(next_cmd_id g \<mapsto> \<lparr>cmd_cid = next_cmd_id g, cmd_nid = nid, cmd_kind = kind, cmd_tid = tid,
                             cmd_dependencies = [], cmd_pseudo_critical_path_length = 0\<rparr>)"
  by (simp add: create_def Let_def graph_wf_next)

lemma create_front:
  "graph_wf g \<Longrightarrow>
   front_of (snd (create kind nid tid g)) n =
   (if kind \<noteq> Nop \<and> n = nid then insert (next_cmd_id g) (front_of g n) else front_of g n)"
  by (simp add: create_def Let_def graph_wf_next front_of_def)

lemma create_depends_on:
  "graph_wf g \<Longrightarrow> depends_on (snd (create kind nid tid g)) d c \<longleftrightarrow> depends_on g d c"
  by (auto simp: depends_on_def create_commands graph_wf_next split: option.splits)

lemma create_wf:
  assumes "graph_wf g"
  shows "graph_wf (snd (create kind nid tid g))"
proof -
  have "dom (commands (snd (create kind nid tid g))) = {0..<next_cmd_id g + 1}"
    using assms by (auto simp: create_commands [OF assms] graph_wf_def)
  moreover have "\<forall>d c. depends_on g d c \<longrightarrow> c < next_cmd_id g + 1"
    using assms by (auto simp: graph_wf_def less_Suc_eq)
  ultimately show ?thesis
    by (simp add: graph_wf_def create_next create_depends_on [OF assms])
qed

lemma create_on_node:
  "graph_wf g \<Longrightarrow> on_node (snd (create kind nid tid g)) n c \<longleftrightarrow>
     (if c = next_cmd_id g then n = nid else on_node g n c)"
  by (auto simp: on_node_def create_commands)

lemma create_is_nop:
  "graph_wf g \<Longrightarrow> is_nop (snd (create kind nid tid g)) c \<longleftrightarrow>
     (if c = next_cmd_id g then kind = Nop else is_nop g c)"
  by (simp add: is_nop_def create_commands)

lemma create_has_dependents:
  assumes "graph_wf g"
  shows "has_dependents (snd (create kind nid tid g)) c \<longleftrightarrow> has_dependents g c"
proof -
  have "(\<exists>d<next_cmd_id g + 1. depends_on g d c) \<longleftrightarrow> (\<exists>d<next_cmd_id g. depends_on g d c)"
    using depends_on_wf [OF assms] by (auto simp: less_Suc_eq)
  then show ?thesis
    by (simp add: has_dependents_iff create_next create_depends_on [OF assms])
qed


lemma create_work:
  assumes "graph_wf g"
  shows "work_without_dependents (snd (create kind nid tid g)) n =
         (if kind \<noteq> Nop \<and> n = nid then insert (next_cmd_id g) (work_without_dependents g n)
          else work_without_dependents g n)"
proof -
  have nd: "\<not> has_dependents g (next_cmd_id g)"
    using assms by (auto simp: has_dependents_iff graph_wf_def)
  show ?thesis
    apply (rule set_eqI)
    apply (simp add: mem_work_without_dependents create_next create_on_node [OF assms]
        create_is_nop [OF assms] create_has_dependents [OF assms] less_Suc_eq)
    using nd apply auto
    done
qed

text \<open>The effect of a successful \<open>add_dependency\<close>.\<close>

lemma add_dependency_Inr:
  assumes "add_dependency a b anti g = Inr g1"
  shows "\<exists>ca cb. commands g a = Some ca \<and> commands g b = Some cb \<and> cmd_nid ca = cmd_nid cb \<and> b \<noteq> a
           \<and> next_cmd_id g1 = next_cmd_id g
           \<and> commands g1 = (commands g)(a \<mapsto> cmd_add_dependency ca (b, anti) (cmd_pseudo_critical_path_length cb))
           \<and> execution_fronts g1 = (execution_fronts g)(cmd_nid ca \<mapsto> front_of g (cmd_nid ca) - {b})"
  using assms by (auto simp: add_dependency_def Let_def split: option.splits if_splits)

lemma cmd_add_dependency_fields:
  "cmd_nid (cmd_add_dependency c dep l) = cmd_nid c"
  "cmd_kind (cmd_add_dependency c dep l) = cmd_kind c"
  "cmd_dependencies (cmd_add_dependency c dep l) = cmd_dependencies c @ [dep]"
  by (simp_all add: cmd_add_dependency_def)

lemma cmd_remove_dependency_fields:
  "cmd_nid (cmd_remove_dependency c b) = cmd_nid c"
  "cmd_kind (cmd_remove_dependency c b) = cmd_kind c"
  "cmd_dependencies (cmd_remove_dependency c b) = filter (\<lambda>dep. fst dep \<noteq> b) (cmd_dependencies c)"
  by (simp_all add: cmd_remove_dependency_def)

lemma add_dependency_effect:
  assumes "add_dependency a b anti g = Inr g1" "graph_wf g"
  shows "graph_wf g1"
    and "next_cmd_id g1 = next_cmd_id g"
    and "depends_on g1 d c \<longleftrightarrow> depends_on g d c \<or> (d = a \<and> c = b)"
    and "on_node g1 n c \<longleftrightarrow> on_node g n c"
    and "is_nop g1 c \<longleftrightarrow> is_nop g c"
    and "on_node g n b \<Longrightarrow> front_of g1 n = front_of g n - {b}"
    and "\<not> on_node g n b \<Longrightarrow> front_of g1 n = front_of g n"
    and "a < next_cmd_id g" and "b < next_cmd_id g" and "b \<noteq> a"
    and "\<exists>ca cb. commands g1 a = Some ca \<and> commands g1 b = Some cb \<and> cmd_nid ca = cmd_nid cb"
proof -
  from add_dependency_Inr [OF assms(1)] obtain ca cb where
    ca: "commands g a = Some ca" and cb: "commands g b = Some cb" and nid: "cmd_nid ca = cmd_nid cb"
    and ne: "b \<noteq> a" and nx: "next_cmd_id g1 = next_cmd_id g"
    and cm: "commands g1 = (commands g)(a \<mapsto> cmd_add_dependency ca (b, anti) (cmd_pseudo_critical_path_length cb))"
    and fr: "execution_fronts g1 = (execution_fronts g)(cmd_nid ca \<mapsto> front_of g (cmd_nid ca) - {b})"
    by blast
  show "next_cmd_id g1 = next_cmd_id g" by (rule nx)
  show "b \<noteq> a" by (rule ne)
  show "a < next_cmd_id g" by (rule graph_wf_Some [OF assms(2) ca])
  show "b < next_cmd_id g" by (rule graph_wf_Some [OF assms(2) cb])
  show dp: "depends_on g1 d c \<longleftrightarrow> depends_on g d c \<or> (d = a \<and> c = b)" for d c
    using ca by (auto simp: depends_on_def cm cmd_add_dependency_fields split: option.splits)
  have "dom (commands g1) = {0..<next_cmd_id g}" using assms(2) ca by (auto simp: graph_wf_def cm)
  moreover have "\<forall>d c. depends_on g1 d c \<longrightarrow> c < next_cmd_id g"
    using assms(2) graph_wf_Some [OF assms(2) cb] by (auto simp: dp graph_wf_def)
  ultimately show "graph_wf g1" by (simp add: graph_wf_def nx)
  show "on_node g1 n c \<longleftrightarrow> on_node g n c"
    using ca by (auto simp: on_node_def cm cmd_add_dependency_fields split: option.splits)
  show "is_nop g1 c \<longleftrightarrow> is_nop g c"
    using ca by (auto simp: is_nop_def cm cmd_add_dependency_fields split: option.splits)
  show "on_node g n b \<Longrightarrow> front_of g1 n = front_of g n - {b}"
    using cb nid by (auto simp: on_node_def front_of_def fr)
  show "\<not> on_node g n b \<Longrightarrow> front_of g1 n = front_of g n"
    using cb nid by (auto simp: on_node_def front_of_def fr)
  show "\<exists>ca cb. commands g1 a = Some ca \<and> commands g1 b = Some cb \<and> cmd_nid ca = cmd_nid cb"
    using ca cb nid ne by (simp add: cm cmd_add_dependency_fields)
qed

lemma add_dependency_work:
  assumes "add_dependency a b anti g = Inr g1" "graph_wf g"
  shows "work_without_dependents g1 n = work_without_dependents g n - {b}"
proof -
  note e = add_dependency_effect [OF assms]
  have hd: "has_dependents g1 c \<longleftrightarrow> has_dependents g c \<or> c = b" for c
    using e(8) by (auto simp: has_dependents_iff e(2) e(3))
  show ?thesis
    by (rule set_eqI) (auto simp: mem_work_without_dependents e(2) e(4) e(5) hd)
qed


lemma remove_dependency_effect:
  assumes "remove_dependency a b g = Inr g1" "graph_wf g"
  shows "graph_wf g1"
    and "next_cmd_id g1 = next_cmd_id g"
    and "depends_on g1 d c \<longleftrightarrow> depends_on g d c \<and> \<not> (d = a \<and> c = b)"
    and "\<exists>ca. commands g a = Some ca \<and> commands g1 = (commands g)(a \<mapsto> cmd_remove_dependency ca b)"
proof -
  from assms(1) obtain ca where ca: "commands g a = Some ca"
    and g1: "g1 = g\<lparr>commands := (commands g)(a \<mapsto> cmd_remove_dependency ca b)\<rparr>"
    by (auto simp: remove_dependency_def split: option.splits)
  show "next_cmd_id g1 = next_cmd_id g" by (simp add: g1)
  show dp: "depends_on g1 d c \<longleftrightarrow> depends_on g d c \<and> \<not> (d = a \<and> c = b)" for d c
    using ca by (auto simp: depends_on_def g1 cmd_remove_dependency_fields split: option.splits)
  have "dom (commands g1) = {0..<next_cmd_id g}" using assms(2) ca by (auto simp: graph_wf_def g1)
  moreover have "\<forall>d c. depends_on g1 d c \<longrightarrow> c < next_cmd_id g"
    using assms(2) by (auto simp: dp graph_wf_def)
  ultimately show "graph_wf g1" by (simp add: graph_wf_def g1)
  show "\<exists>ca. commands g a = Some ca \<and> commands g1 = (commands g)(a \<mapsto> cmd_remove_dependency ca b)"
    using ca by (simp add: g1)
qed

text \<open>Every operation keeps the edges inside one node.\<close>

lemma create_edges_local:
  assumes "graph_wf g" "edges_local g"
  shows "edges_local (snd (create kind nid tid g))"
  unfolding edges_local_def
proof (intro allI impI)
  fix d c
  assume a: "d < next_cmd_id (snd (create kind nid tid g)) \<and> depends_on (snd (create kind nid tid g)) d c"
  then have dep: "depends_on g d c" by (simp add: create_depends_on [OF assms(1)])
  then have d: "d < next_cmd_id g" by (rule depends_on_wf [OF assms(1)])
  with dep assms(2) obtain ca cb where c: "c \<noteq> d" "c < next_cmd_id g"
    and cs: "commands g d = Some ca" "commands g c = Some cb" "cmd_nid ca = cmd_nid cb"
    unfolding edges_local_def by blast
  from d c(2) cs show "c \<noteq> d \<and> c < next_cmd_id (snd (create kind nid tid g))
        \<and> (\<exists>a b. commands (snd (create kind nid tid g)) d = Some a
              \<and> commands (snd (create kind nid tid g)) c = Some b \<and> cmd_nid a = cmd_nid b)"
    using c(1) by (simp add: create_next create_commands [OF assms(1)])
qed

lemma add_dependency_edges_local:
  assumes "add_dependency a b anti g = Inr g1" "graph_wf g" "edges_local g"
  shows "edges_local g1"
  unfolding edges_local_def
proof (intro allI impI)
  note e = add_dependency_effect [OF assms(1,2)]
  from add_dependency_Inr [OF assms(1)] obtain ca cb where
    ca: "commands g a = Some ca" and cb: "commands g b = Some cb" and nid: "cmd_nid ca = cmd_nid cb"
    and cm: "commands g1 = (commands g)(a \<mapsto> cmd_add_dependency ca (b, anti) (cmd_pseudo_critical_path_length cb))"
    by blast
  have same: "\<exists>x. commands g1 k = Some x \<and> cmd_nid x = cmd_nid y" if "commands g k = Some y" for k y
    using that ca by (auto simp: cm cmd_add_dependency_fields)
  fix d c
  assume "d < next_cmd_id g1 \<and> depends_on g1 d c"
  then have dl: "d < next_cmd_id g" and dep: "depends_on g d c \<or> (d = a \<and> c = b)"
    by (simp_all add: e(2) e(3))
  from dep show "c \<noteq> d \<and> c < next_cmd_id g1
        \<and> (\<exists>a b. commands g1 d = Some a \<and> commands g1 c = Some b \<and> cmd_nid a = cmd_nid b)"
  proof
    assume "depends_on g d c"
    with dl assms(3) obtain x y where c: "c \<noteq> d" "c < next_cmd_id g"
      and cs: "commands g d = Some x" "commands g c = Some y" "cmd_nid x = cmd_nid y"
      unfolding edges_local_def by blast
    from same [OF cs(1)] same [OF cs(2)] cs(3) c show ?thesis by (auto simp: e(2))
  next
    assume "d = a \<and> c = b"
    then show ?thesis using e(9) e(10) e(11) by (simp add: e(2))
  qed
qed

lemma remove_dependency_edges_local:
  assumes "remove_dependency a b g = Inr g1" "graph_wf g" "edges_local g"
  shows "edges_local g1"
  unfolding edges_local_def
proof (intro allI impI)
  note e = remove_dependency_effect [OF assms(1,2)]
  from e(4) obtain ca where ca: "commands g a = Some ca"
    and cm: "commands g1 = (commands g)(a \<mapsto> cmd_remove_dependency ca b)" by blast
  have same: "\<exists>x. commands g1 k = Some x \<and> cmd_nid x = cmd_nid y" if "commands g k = Some y" for k y
    using that ca by (auto simp: cm cmd_remove_dependency_fields)
  fix d c
  assume "d < next_cmd_id g1 \<and> depends_on g1 d c"
  then have dl: "d < next_cmd_id g" and dep: "depends_on g d c" by (simp_all add: e(2) e(3))
  with assms(3) obtain x y where c: "c \<noteq> d" "c < next_cmd_id g"
    and cs: "commands g d = Some x" "commands g c = Some y" "cmd_nid x = cmd_nid y"
    unfolding edges_local_def by blast
  from same [OF cs(1)] same [OF cs(2)] cs(3) c
  show "c \<noteq> d \<and> c < next_cmd_id g1
        \<and> (\<exists>a b. commands g1 d = Some a \<and> commands g1 c = Some b \<and> cmd_nid a = cmd_nid b)"
    by (auto simp: e(2))
qed

lemma empty_graph_inv: "graph_wf empty_graph" "edges_local empty_graph" "front_inv empty_graph"
  by (simp_all add: graph_wf_def edges_local_def front_inv_def empty_graph_def depends_on_def
      front_of_def work_without_dependents_def)

lemma apply_op_inv:
  assumes "apply_op op g = Inr g1" "graph_wf g" "edges_local g"
  shows "graph_wf g1 \<and> edges_local g1"
proof (cases op)
  case (Create kind nid tid)
  with assms show ?thesis using create_wf create_edges_local by auto
next
  case (Add_dependency a b anti)
  with assms show ?thesis using add_dependency_effect(1) add_dependency_edges_local by auto
next
  case (Remove_dependency a b)
  with assms show ?thesis using remove_dependency_effect(1) remove_dependency_edges_local by auto
qed

lemma run_ops_inv:
  "run_ops ops g = Inr g1 \<Longrightarrow> graph_wf g \<Longrightarrow> edges_local g \<Longrightarrow> graph_wf g1 \<and> edges_local g1"
proof (induction ops arbitrary: g)
  case Nil
  then show ?case by simp
next
  case (Cons op ops)
  from Cons.prems(1) obtain g2 where a: "apply_op op g = Inr g2" and r: "run_ops ops g2 = Inr g1"
    by (auto split: sum.splits)
  from apply_op_inv [OF a Cons.prems(2,3)] Cons.IH [OF r] show ?case by blast
qed

lemma apply_op_front_inv:
  assumes "apply_op op g = Inr g1" "graph_wf g" "front_inv g" "\<not> is_remove op"
  shows "front_inv g1"
proof (cases op)
  case (Create kind nid tid)
  with assms(1) have g1: "g1 = snd (create kind nid tid g)" by simp
  show ?thesis
    using assms(3) unfolding front_inv_def g1
    by (simp add: create_front [OF assms(2)] create_work [OF assms(2)])
next
  case (Add_dependency a b anti)
  with assms(1) have ad: "add_dependency a b anti g = Inr g1" by simp
  note e = add_dependency_effect [OF ad assms(2)]
  show ?thesis
    unfolding front_inv_def
  proof
    fix n
    show "front_of g1 n = work_without_dependents g1 n"
    proof (cases "on_node g n b")
      case True
      then show ?thesis using assms(3) e(6) [OF True]
        by (simp add: front_inv_def add_dependency_work [OF ad assms(2)])
    next
      case False
      then have "b \<notin> work_without_dependents g n" by (simp add: mem_work_without_dependents)
      then show ?thesis using assms(3) e(7) [OF False]
        by (simp add: front_inv_def add_dependency_work [OF ad assms(2)])
    qed
  qed
next
  case (Remove_dependency a b)
  with assms(4) show ?thesis by simp
qed

lemma run_ops_front_inv:
  "run_ops ops g = Inr g1 \<Longrightarrow> graph_wf g \<Longrightarrow> edges_local g \<Longrightarrow> front_inv g \<Longrightarrow>
   \<not> list_ex is_remove ops \<Longrightarrow> front_inv g1"
proof (induction ops arbitrary: g)
  case Nil
  then show ?case by simp
next
  case (Cons op ops)
  from Cons.prems(1) obtain g2 where a: "apply_op op g = Inr g2" and r: "run_ops ops g2 = Inr g1"
    by (auto split: sum.splits)
  from Cons.prems(5) have nr: "\<not> is_remove op" and nrs: "\<not> list_ex is_remove ops" by simp_all
  from apply_op_inv [OF a Cons.prems(2,3)] have w: "graph_wf g2" and l: "edges_local g2" by simp_all
  from apply_op_front_inv [OF a Cons.prems(2,4) nr] have f: "front_inv g2" .
  show ?case by (rule Cons.IH [OF r w l f nrs])
qed

text \<open>
  C4, as amended. After any sequence of \<open>create\<close> and \<open>add_dependency\<close> operations on an
  empty command graph, none of which fails, for every node \<open>nid\<close> the set
  \<open>execution_fronts[nid]\<close> equals exactly the set of the commands on that node that are
  no \<open>nop\<close> and have no dependents.
\<close>

theorem execution_front_invariant:
  assumes "run_ops ops empty_graph = Inr g" and "\<not> list_ex is_remove ops"
  shows "front_of g nid = work_without_dependents g nid"
  using run_ops_front_inv [OF assms(1) empty_graph_inv assms(2)] by (simp add: front_inv_def)

text \<open>
  C5. In every command graph produced by a sequence of \<open>create\<close>, \<open>add_dependency\<close> and
  \<open>remove_dependency\<close> operations, every dependency edge joins two distinct commands
  of the same node. On any graph, \<open>add_dependency\<close> with a depender and a dependee on
  different nodes, or with the depender as its own dependee, fails its assertion.
\<close>

theorem dependency_edges_local:
  "(run_ops ops empty_graph = Inr g \<longrightarrow> edges_local g)
   \<and> (commands g0 a = Some ca \<and> commands g0 b = Some cb \<and> (cmd_nid ca \<noteq> cmd_nid cb \<or> a = b) \<longrightarrow>
        add_dependency a b is_anti g0 = Inl Assertion_failed)"
proof (intro conjI impI)
  assume "run_ops ops empty_graph = Inr g"
  from run_ops_inv [OF this empty_graph_inv(1,2)] show "edges_local g" by simp
next
  assume "commands g0 a = Some ca \<and> commands g0 b = Some cb \<and> (cmd_nid ca \<noteq> cmd_nid cb \<or> a = b)"
  then show "add_dependency a b is_anti g0 = Inl Assertion_failed"
    by (auto simp: add_dependency_def)
qed


lemmas graph_eval =
  empty_graph_def create_def add_dependency_def remove_dependency_def front_of_def
  has_dependents_def depends_on_def on_node_def is_nop_def is_task_command_def cmd_add_dependency_def
  cmd_remove_dependency_def Let_def

theorem execution_front_invariant_witness:
  "\<not> list_ex is_remove example_ops_dependency
   \<and> (\<exists>g. run_ops example_ops_dependency empty_graph = Inr g
          \<and> front_of g 0 = work_without_dependents g 0 \<and> front_of g 0 = {0})"
proof -
  have nr: "\<not> list_ex is_remove example_ops_dependency" by (simp add: example_ops_dependency_def)
  have "\<exists>g. run_ops example_ops_dependency empty_graph = Inr g \<and> front_of g 0 = {0}"
    by (simp add: example_ops_dependency_def graph_eval)
  then obtain g where run: "run_ops example_ops_dependency empty_graph = Inr g" and f: "front_of g 0 = {0}"
    by blast
  from execution_front_invariant [OF run nr, of 0] run f nr show ?thesis by blast
qed

text \<open>
  C4 as stated fails. After the creation of one \<open>nop\<close> on node 0 the command has no
  dependents and the front of node 0 is empty. After two compute commands on node 0, a
  dependency of the first on the second and the removal of that dependency, the second
  command has no dependents and is missing from the front of node 0.
\<close>

theorem execution_front_counterexample:
  "spec_front_invariant_after example_ops_nop 0 = Some False
   \<and> spec_front_invariant_after example_ops_removed 0 = Some False"
  by (simp add: spec_front_invariant_after_def example_ops_nop_def example_ops_removed_def
      commands_without_dependents_def graph_eval)

theorem dependency_edges_local_witness:
  "(\<exists>g. run_ops example_ops_dependency empty_graph = Inr g \<and> edges_local g \<and> depends_on g 0 1)
   \<and> (\<exists>g0 ca cb. run_ops example_ops_two_nodes empty_graph = Inr g0
          \<and> commands g0 0 = Some ca \<and> commands g0 1 = Some cb \<and> cmd_nid ca \<noteq> cmd_nid cb
          \<and> add_dependency 0 1 False g0 = Inl Assertion_failed)
   \<and> (\<exists>g0 ca. run_ops example_ops_nop empty_graph = Inr g0
          \<and> commands g0 0 = Some ca
          \<and> add_dependency 0 0 False g0 = Inl Assertion_failed)"
proof (intro conjI)
  have "\<exists>g. run_ops example_ops_dependency empty_graph = Inr g \<and> depends_on g 0 1"
    by (simp add: example_ops_dependency_def graph_eval)
  then obtain g where run: "run_ops example_ops_dependency empty_graph = Inr g" and d: "depends_on g 0 1"
    by blast
  from dependency_edges_local [THEN conjunct1, rule_format, OF run] run d
  show "\<exists>g. run_ops example_ops_dependency empty_graph = Inr g \<and> edges_local g \<and> depends_on g 0 1"
    by blast
next
  have "\<exists>g0 ca cb. run_ops example_ops_two_nodes empty_graph = Inr g0
          \<and> commands g0 0 = Some ca \<and> commands g0 1 = Some cb \<and> cmd_nid ca \<noteq> cmd_nid cb"
    by (simp add: example_ops_two_nodes_def graph_eval)
  then obtain g0 ca cb where run: "run_ops example_ops_two_nodes empty_graph = Inr g0"
    and c: "commands g0 0 = Some ca \<and> commands g0 1 = Some cb \<and> (cmd_nid ca \<noteq> cmd_nid cb \<or> (0::nat) = 1)"
    and n: "cmd_nid ca \<noteq> cmd_nid cb"
    by auto
  from dependency_edges_local [THEN conjunct2, rule_format, OF c, of False] run c n
  show "\<exists>g0 ca cb. run_ops example_ops_two_nodes empty_graph = Inr g0
          \<and> commands g0 0 = Some ca \<and> commands g0 1 = Some cb \<and> cmd_nid ca \<noteq> cmd_nid cb
          \<and> add_dependency 0 1 False g0 = Inl Assertion_failed"
    by blast
next
  have "\<exists>g0 ca. run_ops example_ops_nop empty_graph = Inr g0 \<and> commands g0 0 = Some ca"
    by (simp add: example_ops_nop_def graph_eval)
  then obtain g0 ca where run: "run_ops example_ops_nop empty_graph = Inr g0"
    and c0: "commands g0 0 = Some ca" by blast
  then have c: "commands g0 0 = Some ca \<and> commands g0 0 = Some ca \<and> (cmd_nid ca \<noteq> cmd_nid ca \<or> (0::nat) = 0)"
    by simp
  from dependency_edges_local [THEN conjunct2, rule_format, OF c, of False] run c0
  show "\<exists>g0 ca. run_ops example_ops_nop empty_graph = Inr g0
          \<and> commands g0 0 = Some ca
          \<and> add_dependency 0 0 False g0 = Inl Assertion_failed"
    by blast
qed


section \<open>The rendezvous of a push and its await on the blackboard\<close>

text \<open>
  A poll of the incoming transfers leaves the transfers whose request is not complete
  in the list, and handles the others in the order of the list.
\<close>

lemma update_incoming_loop_none:
  "filter ti_request_done ts = [] \<Longrightarrow> update_incoming_loop ts s = Inr (ts, s)"
  by (induction ts) (auto split: if_splits)

lemma update_incoming_loop_single:
  "filter ti_request_done ts = [t] \<Longrightarrow>
   update_incoming_loop ts s =
     (case complete_transfer t s of
        Inl e \<Rightarrow> Inl e
      | Inr s1 \<Rightarrow> Inr (filter (\<lambda>x. \<not> ti_request_done x) ts, s1))"
proof (induction ts)
  case Nil
  then show ?case by simp
next
  case (Cons x xs)
  show ?case
  proof (cases "ti_request_done x")
    case True
    with Cons.prems have x: "x = t" and none: "filter ti_request_done xs = []" by auto
    have keep: "filter (\<lambda>x. \<not> ti_request_done x) xs = xs"
      using none by (simp add: filter_empty_conv)
    show ?thesis
      using True x keep by (simp add: update_incoming_loop_none [OF none] split: sum.splits)
  next
    case False
    with Cons.prems have "filter ti_request_done xs = [t]" by simp
    from Cons.IH [OF this] False show ?thesis by (simp split: sum.splits)
  qed
qed

lemma update_incoming_transfers_single:
  assumes "filter ti_request_done (incoming_transfers s) = [t]"
  shows "update_incoming_transfers s =
     (case complete_transfer t s of
        Inl e \<Rightarrow> Inl e
      | Inr s1 \<Rightarrow> Inr (s1\<lparr>incoming_transfers := filter (\<lambda>x. \<not> ti_request_done x) (incoming_transfers s)\<rparr>))"
  unfolding update_incoming_transfers_def update_incoming_loop_single [OF assms]
  by (simp split: sum.splits)


lemma await_push_first:
  assumes "push_blackboard s cid = None"
    and "pkg_cmd pkg = Await_push"
    and "pkg_data pkg = Await_push_data bid cid sr"
  shows "await_push pkg s =
     Inr (next_handle s,
          s\<lparr>handles := (handles s)(next_handle s \<mapsto> \<lparr>ith_complete = False, ith_transfer = None\<rparr>),
            next_handle := next_handle s + 1,
            push_blackboard := (push_blackboard s)(cid \<mapsto> next_handle s)\<rparr>)"
  using assms by (simp add: await_push_def make_handle_def)

lemma complete_transfer_first:
  assumes "push_blackboard s (h_push_cid (ti_header t)) = None"
  shows "complete_transfer t s =
     Inr (s\<lparr>handles := (handles s)(next_handle s \<mapsto> \<lparr>ith_complete = True, ith_transfer = Some t\<rparr>),
            next_handle := next_handle s + 1,
            push_blackboard := (push_blackboard s)(h_push_cid (ti_header t) \<mapsto> next_handle s)\<rparr>)"
  using assms by (simp add: complete_transfer_def make_handle_def mark_complete_def)

lemma complete_transfer_second:
  assumes "push_blackboard s (h_push_cid (ti_header t)) = Some r"
    and "handles s r = Some h"
    and "buffer_ptrs s (h_bid (ti_header t)) = Some (Some writes)"
  shows "complete_transfer t s =
     Inr (s\<lparr>push_blackboard := (push_blackboard s)(h_push_cid (ti_header t) := None),
            buffer_ptrs := (buffer_ptrs s)(h_bid (ti_header t) \<mapsto> Some (writes @ [data_handle_of t])),
            handles := (handles s)(r \<mapsto> h\<lparr>ith_complete := True\<rparr>)\<rparr>)"
  using assms
  by (simp add: complete_transfer_def write_data_to_buffer_def set_buffer_data_def mark_complete_def)

lemma await_push_second:
  assumes "push_blackboard s cid = Some r"
    and "handles s r = Some h"
    and "ith_transfer h = Some t"
    and "pkg_cmd pkg = Await_push"
    and "pkg_data pkg = Await_push_data (h_bid (ti_header t)) cid (h_subrange (ti_header t))"
    and "buffer_ptrs s (h_bid (ti_header t)) = Some (Some writes)"
  shows "await_push pkg s =
     Inr (r, s\<lparr>push_blackboard := (push_blackboard s)(cid := None),
               buffer_ptrs := (buffer_ptrs s)(h_bid (ti_header t) \<mapsto> Some (writes @ [data_handle_of t]))\<rparr>)"
  using assms
  by (simp add: await_push_def write_data_to_buffer_def set_buffer_data_def)


lemma await_then_arrive_result:
  assumes bb: "push_blackboard s cid = None"
    and one: "filter ti_request_done (incoming_transfers s) = [t]"
    and cid: "h_push_cid (ti_header t) = cid"
    and cmd: "pkg_cmd pkg = Await_push"
    and dat: "pkg_data pkg = Await_push_data (h_bid (ti_header t)) cid (h_subrange (ti_header t))"
    and buf: "buffer_ptrs s (h_bid (ti_header t)) = Some (Some writes)"
  shows "await_then_arrive pkg s =
     Inr (next_handle s,
          s\<lparr>handles := (handles s)(next_handle s \<mapsto> \<lparr>ith_complete = True, ith_transfer = None\<rparr>),
            next_handle := next_handle s + 1,
            push_blackboard := (push_blackboard s)(cid := None),
            buffer_ptrs := (buffer_ptrs s)(h_bid (ti_header t) \<mapsto> Some (writes @ [data_handle_of t])),
            incoming_transfers := filter (\<lambda>x. \<not> ti_request_done x) (incoming_transfers s)\<rparr>)"
proof -
  define s1 where "s1 =
    s\<lparr>handles := (handles s)(next_handle s \<mapsto> \<lparr>ith_complete = False, ith_transfer = None\<rparr>),
      next_handle := next_handle s + 1,
      push_blackboard := (push_blackboard s)(cid \<mapsto> next_handle s)\<rparr>"
  have a: "await_push pkg s = Inr (next_handle s, s1)"
    unfolding s1_def by (rule await_push_first [OF bb cmd dat])
  have one1: "filter ti_request_done (incoming_transfers s1) = [t]"
    using one by (simp add: s1_def)
  have c: "complete_transfer t s1 =
     Inr (s1\<lparr>push_blackboard := (push_blackboard s1)(h_push_cid (ti_header t) := None),
             buffer_ptrs := (buffer_ptrs s1)(h_bid (ti_header t) \<mapsto> Some (writes @ [data_handle_of t])),
             handles := (handles s1)(next_handle s \<mapsto>
               \<lparr>ith_complete = False, ith_transfer = None\<rparr>\<lparr>ith_complete := True\<rparr>)\<rparr>)"
    by (rule complete_transfer_second) (simp_all add: s1_def cid buf)
  show ?thesis
    unfolding await_then_arrive_def a
    by (simp add: update_incoming_transfers_single [OF one1] c) (simp add: s1_def cid)
qed

lemma arrive_then_await_result:
  assumes bb: "push_blackboard s cid = None"
    and one: "filter ti_request_done (incoming_transfers s) = [t]"
    and cid: "h_push_cid (ti_header t) = cid"
    and cmd: "pkg_cmd pkg = Await_push"
    and dat: "pkg_data pkg = Await_push_data (h_bid (ti_header t)) cid (h_subrange (ti_header t))"
    and buf: "buffer_ptrs s (h_bid (ti_header t)) = Some (Some writes)"
  shows "arrive_then_await pkg s =
     Inr (next_handle s,
          s\<lparr>handles := (handles s)(next_handle s \<mapsto> \<lparr>ith_complete = True, ith_transfer = Some t\<rparr>),
            next_handle := next_handle s + 1,
            push_blackboard := (push_blackboard s)(cid := None),
            buffer_ptrs := (buffer_ptrs s)(h_bid (ti_header t) \<mapsto> Some (writes @ [data_handle_of t])),
            incoming_transfers := filter (\<lambda>x. \<not> ti_request_done x) (incoming_transfers s)\<rparr>)"
proof -
  define s1 where "s1 =
    s\<lparr>handles := (handles s)(next_handle s \<mapsto> \<lparr>ith_complete = True, ith_transfer = Some t\<rparr>),
      next_handle := next_handle s + 1,
      push_blackboard := (push_blackboard s)(cid \<mapsto> next_handle s),
      incoming_transfers := filter (\<lambda>x. \<not> ti_request_done x) (incoming_transfers s)\<rparr>"
  have bb': "push_blackboard s (h_push_cid (ti_header t)) = None"
    using bb cid by simp
  have u: "update_incoming_transfers s = Inr s1"
    by (simp add: update_incoming_transfers_single [OF one] complete_transfer_first [OF bb'] s1_def cid)
  have a: "await_push pkg s1 =
     Inr (next_handle s, s1\<lparr>push_blackboard := (push_blackboard s1)(cid := None),
               buffer_ptrs := (buffer_ptrs s1)(h_bid (ti_header t) \<mapsto> Some (writes @ [data_handle_of t]))\<rparr>)"
    by (rule await_push_second [where h = "\<lparr>ith_complete = True, ith_transfer = Some t\<rparr>"])
       (simp_all add: s1_def cmd dat buf)
  show ?thesis
    unfolding arrive_then_await_def u
    by (simp add: a) (simp add: s1_def)
qed

text \<open>
  Claim C3, as amended. Take a push command id with no entry on the blackboard, a poll
  in which the transfer of that push, and no other, completes, an \<open>await_push\<close> package
  for that push that names the buffer and the subrange of the header of the transfer,
  and a storage for that buffer. Then \<open>await_push\<close> followed by the poll and the poll
  followed by \<open>await_push\<close> both succeed and give the waiter the same handle. The two
  final states have the same blackboard, the same buffers, the same list of incoming
  transfers, the same next handle, the same complete flag in every handle and the same
  handles apart from the one of the waiter: the bytes of the transfer are handed to the
  storage of the buffer, the blackboard has no entry for the push, and the handle of the
  waiter is complete. Nothing is said of the transfer that the handle of the waiter
  refers to.
\<close>

theorem await_push_commutes:
  assumes "push_blackboard s cid = None"
    and "filter ti_request_done (incoming_transfers s) = [t]"
    and "h_push_cid (ti_header t) = cid"
    and "pkg_cmd pkg = Await_push"
    and "pkg_data pkg = Await_push_data (h_bid (ti_header t)) cid (h_subrange (ti_header t))"
    and "buffer_ptrs s (h_bid (ti_header t)) = Some (Some writes)"
  shows "\<exists>h sa sb.
      await_then_arrive pkg s = Inr (h, sa) \<and> arrive_then_await pkg s = Inr (h, sb)
    \<and> push_blackboard sa = push_blackboard sb
    \<and> buffer_ptrs sa = buffer_ptrs sb
    \<and> incoming_transfers sa = incoming_transfers sb
    \<and> next_handle sa = next_handle sb
    \<and> handle_complete sa = handle_complete sb
    \<and> (handles sa)(h := None) = (handles sb)(h := None)
    \<and> buffer_ptrs sa = (buffer_ptrs s)(h_bid (ti_header t) \<mapsto> Some (writes @ [data_handle_of t]))
    \<and> push_blackboard sa cid = None
    \<and> handle_complete sa h"
  unfolding await_then_arrive_result [OF assms] arrive_then_await_result [OF assms]
  by (simp add: handle_complete_def fun_eq_iff)

theorem await_push_commutes_witness:
  "\<exists>h sa sb.
      await_then_arrive example_await_push example_btm = Inr (h, sa)
    \<and> arrive_then_await example_await_push example_btm = Inr (h, sb)
    \<and> push_blackboard sa = push_blackboard sb
    \<and> buffer_ptrs sa = buffer_ptrs sb
    \<and> incoming_transfers sa = incoming_transfers sb
    \<and> next_handle sa = next_handle sb
    \<and> handle_complete sa = handle_complete sb
    \<and> (handles sa)(h := None) = (handles sb)(h := None)
    \<and> buffer_ptrs sa = [2 \<mapsto> Some [\<lparr>rdh_data = [1, 2, 3], rdh_range = (3, 1, 1), rdh_offset = (0, 0, 0)\<rparr>]]
    \<and> push_blackboard sa 5 = None
    \<and> handle_complete sa h"
  using await_push_commutes [of example_btm 5 example_transfer example_await_push "[]"]
  by (simp add: example_btm_def example_transfer_def example_await_push_def data_handle_of_def)

text \<open>
  C3 as stated fails. In the example both orders succeed and return handle 0, but the two
  final states are not the same: the handle of the waiter refers to no transfer when
  \<open>await_push\<close> came first, and still refers to the transfer when the data came first
  (\<open>write_data_to_buffer\<close> takes the pointer by reference and leaves it in the handle).
  And with a package for the same push that names buffer 3, where the header of the
  transfer names buffer 2, the two orders do not even end alike: \<open>await_push\<close> first
  succeeds, the data first fails the assertion on the buffer id.
\<close>

theorem await_push_orders_counterexample:
  "\<not> isl (await_then_arrive example_await_push example_btm)
   \<and> \<not> isl (arrive_then_await example_await_push example_btm)
   \<and> fst (projr (await_then_arrive example_await_push example_btm)) = 0
   \<and> fst (projr (arrive_then_await example_await_push example_btm)) = 0
   \<and> handles (snd (projr (await_then_arrive example_await_push example_btm))) 0
        = Some \<lparr>ith_complete = True, ith_transfer = None\<rparr>
   \<and> handles (snd (projr (arrive_then_await example_await_push example_btm))) 0
        = Some \<lparr>ith_complete = True, ith_transfer = Some example_transfer\<rparr>
   \<and> await_then_arrive example_await_push example_btm \<noteq> arrive_then_await example_await_push example_btm
   \<and> \<not> isl (await_then_arrive example_await_push_other_buffer example_btm)
   \<and> arrive_then_await example_await_push_other_buffer example_btm = Inl Assertion_failed"
proof -
  have a: "push_blackboard example_btm 5 = None"
    and b: "filter ti_request_done (incoming_transfers example_btm) = [example_transfer]"
    and c: "h_push_cid (ti_header example_transfer) = 5"
    and d: "pkg_cmd example_await_push = Await_push"
    and e: "pkg_data example_await_push =
         Await_push_data (h_bid (ti_header example_transfer)) 5 (h_subrange (ti_header example_transfer))"
    and f: "buffer_ptrs example_btm (h_bid (ti_header example_transfer)) = Some (Some [])"
    by (simp_all add: example_btm_def example_transfer_def example_await_push_def)
  note ra = await_then_arrive_result [OF a b c d e f]
  note rb = arrive_then_await_result [OF a b c d e f]
  have 1: "\<not> isl (await_then_arrive example_await_push example_btm)"
    and 2: "fst (projr (await_then_arrive example_await_push example_btm)) = 0"
    and 3: "handles (snd (projr (await_then_arrive example_await_push example_btm))) 0
        = Some \<lparr>ith_complete = True, ith_transfer = None\<rparr>"
    unfolding ra by (simp_all add: example_btm_def)
  have 4: "\<not> isl (arrive_then_await example_await_push example_btm)"
    and 5: "fst (projr (arrive_then_await example_await_push example_btm)) = 0"
    and 6: "handles (snd (projr (arrive_then_await example_await_push example_btm))) 0
        = Some \<lparr>ith_complete = True, ith_transfer = Some example_transfer\<rparr>"
    unfolding rb by (simp_all add: example_btm_def)
  have 7: "await_then_arrive example_await_push example_btm \<noteq> arrive_then_await example_await_push example_btm"
    using 3 6 by auto
  have 8: "\<not> isl (await_then_arrive example_await_push_other_buffer example_btm)"
    by (simp add: await_then_arrive_def await_push_def update_incoming_transfers_def
        complete_transfer_def write_data_to_buffer_def set_buffer_data_def mark_complete_def
        make_handle_def example_await_push_other_buffer_def example_btm_def example_transfer_def)
  have 9: "arrive_then_await example_await_push_other_buffer example_btm = Inl Assertion_failed"
    by (simp add: arrive_then_await_def await_push_def update_incoming_transfers_def
        complete_transfer_def write_data_to_buffer_def set_buffer_data_def mark_complete_def
        make_handle_def example_await_push_other_buffer_def example_btm_def example_transfer_def)
  from 1 2 3 4 5 6 7 8 9 show ?thesis by simp
qed





section \<open>Shutdown: one per node, and the exit of the executor loop\<close>

text \<open>
  What the dispatch leaves: every command that is no \<open>nop\<close>, in the order of the walk, for
  its node, then one shutdown for every worker, then one for the master.
\<close>

lemma fold_dispatch_vertex:
  "fold dispatch_vertex visited d =
     d\<lparr>sent := sent d @ map (\<lambda>v. (v_nid v, pkg_of v)) (filter (\<lambda>v. v_cmd v \<noteq> Nop \<and> v_nid v \<noteq> 0) visited),
       master_commands := master_commands d @ map pkg_of (filter (\<lambda>v. v_cmd v \<noteq> Nop \<and> v_nid v = 0) visited)\<rparr>"
  by (induction visited arbitrary: d) (simp_all add: dispatch_vertex_def send_command_def Let_def)

lemma fold_send_shutdown:
  "fold send_shutdown [a..<a + k] d =
     d\<lparr>sent := sent d @ map (\<lambda>n. (n, shutdown_pkg (d_next_cmd_id d + (n - a)))) [a..<a + k],
       d_next_cmd_id := d_next_cmd_id d + k\<rparr>"
proof (induction k)
  case 0
  show ?case by simp
next
  case (Suc k)
  have "fold send_shutdown [a..<a + Suc k] d = send_shutdown (a + k) (fold send_shutdown [a..<a + k] d)"
    by simp
  also have "\<dots> = send_shutdown (a + k)
     (d\<lparr>sent := sent d @ map (\<lambda>n. (n, shutdown_pkg (d_next_cmd_id d + (n - a)))) [a..<a + k],
       d_next_cmd_id := d_next_cmd_id d + k\<rparr>)"
    by (simp only: Suc)
  also have "\<dots> = d\<lparr>sent := sent d @ map (\<lambda>n. (n, shutdown_pkg (d_next_cmd_id d + (n - a)))) [a..<a + Suc k],
       d_next_cmd_id := d_next_cmd_id d + Suc k\<rparr>"
    by (simp add: send_shutdown_def send_command_def)
  finally show ?case .
qed

lemma fold_send_shutdown_workers:
  "fold send_shutdown [Suc 0..<num_nodes] d =
     d\<lparr>sent := sent d @ map (\<lambda>n. (n, shutdown_pkg (d_next_cmd_id d + (n - 1)))) [Suc 0..<num_nodes],
       d_next_cmd_id := d_next_cmd_id d + (num_nodes - 1)\<rparr>"
proof (cases "num_nodes = 0")
  case True
  then show ?thesis by simp
next
  case False
  then have k: "num_nodes = Suc 0 + (num_nodes - 1)" by simp
  show ?thesis
    using fold_send_shutdown [of "Suc 0" "num_nodes - 1" d] k by simp
qed

lemma filter_eq_upt:
  "filter (\<lambda>k. k = n) [a..<b] = (if a \<le> n \<and> n < b then [n] else [])"
  by (induction b) auto

lemma delivered_task_commands:
  "0 < n \<Longrightarrow>
   map snd (filter (\<lambda>m. fst m = n)
      (map (\<lambda>v. (v_nid v, pkg_of v)) (filter (\<lambda>v. v_cmd v \<noteq> Nop \<and> 0 < v_nid v) visited)))
   = task_commands_for n visited"
  unfolding task_commands_for_def
  by (induction visited) auto

lemma delivered_shutdown:
  "map snd (filter (\<lambda>m. fst m = n) (map (\<lambda>k. (k, f k)) [a..<b]))
   = (if a \<le> n \<and> n < b then [f n] else [])"
proof -
  have "filter (\<lambda>m. fst m = n) (map (\<lambda>k. (k, f k)) [a..<b]) = map (\<lambda>k. (k, f k)) (filter (\<lambda>k. k = n) [a..<b])"
    by (simp add: filter_map comp_def)
  then show ?thesis by (simp add: filter_eq_upt)
qed

lemma master_dispatch_result:
  "run_dispatch c num_nodes visited =
     \<lparr>sent = map (\<lambda>v. (v_nid v, pkg_of v)) (filter (\<lambda>v. v_cmd v \<noteq> Nop \<and> 0 < v_nid v) visited)
              @ map (\<lambda>n. (n, shutdown_pkg (c + (n - 1)))) [Suc 0..<num_nodes],
      master_commands = task_commands_for 0 visited @ [shutdown_pkg (c + (num_nodes - 1))],
      d_next_cmd_id = c + (num_nodes - 1) + 1\<rparr>"
  by (simp add: run_dispatch_def master_dispatch_def fold_dispatch_vertex fold_send_shutdown_workers
      task_commands_for_def)

lemma received_by_run_dispatch:
  assumes "n < num_nodes"
  shows "received_by n (run_dispatch c num_nodes visited) =
     task_commands_for n visited @ [shutdown_pkg (c + (if n = 0 then num_nodes - 1 else n - 1))]"
proof (cases "n = 0")
  case True
  then show ?thesis by (simp add: received_by_def master_dispatch_result)
next
  case False
  then show ?thesis
    using assms
    by (simp add: received_by_def delivered_def master_dispatch_result delivered_task_commands
        delivered_shutdown)
qed

lemma shutdown_count_task_commands:
  "list_all (\<lambda>v. v_cmd v \<noteq> Shutdown) visited \<Longrightarrow> shutdown_count (task_commands_for n visited) = 0"
  unfolding shutdown_count_def task_commands_for_def
  by (induction visited) (auto simp add: pkg_of_def)

lemma shutdown_count_append [simp]:
  "shutdown_count (xs @ ys) = shutdown_count xs + shutdown_count ys"
  by (simp add: shutdown_count_def)

lemma shutdown_count_shutdown_pkg [simp]: "shutdown_count [shutdown_pkg cid] = 1"
  by (simp add: shutdown_count_def shutdown_pkg_def)

text \<open>An iteration of the loop takes at most one command from the queue of the node, and sets \<open>done\<close> only on a shutdown.\<close>

lemma handle_command_pkg_keeps:
  "handle_command_pkg env pkg st = Inr st1 \<Longrightarrow>
     ex_done st1 = ex_done st \<and> ex_master_commands st1 = ex_master_commands st \<and> ex_inbox st1 = ex_inbox st"
  by (auto simp add: handle_command_pkg_def split: if_splits prod.splits)

lemma receive_pkg_queue:
  "receive_pkg env st = (received, st1) \<Longrightarrow>
     ex_done st1 = ex_done st
     \<and> queue_of env st = (case received of None \<Rightarrow> [] | Some pkg \<Rightarrow> [pkg]) @ queue_of env st1"
  by (auto simp add: receive_pkg_def queue_of_def split: if_splits)

lemma executor_step_queue:
  assumes "executor_step env st = Inr st1"
  shows "\<exists>taken. queue_of env st = taken @ queue_of env st1
           \<and> (ex_done st1 \<longrightarrow> ex_done st \<or> 0 < shutdown_count taken)"
proof -
  obtain jobs1 w2 where u: "update_jobs env (ex_jobs st) (poll env (ex_world st)) = (jobs1, w2)"
    by (cases "update_jobs env (ex_jobs st) (poll env (ex_world st))")
  obtain received st2 where r: "receive_pkg env (st\<lparr>ex_jobs := jobs1, ex_world := w2\<rparr>) = (received, st2)"
    by (cases "receive_pkg env (st\<lparr>ex_jobs := jobs1, ex_world := w2\<rparr>)")
  have q0: "queue_of env (st\<lparr>ex_jobs := jobs1, ex_world := w2\<rparr>) = queue_of env st"
    by (simp add: queue_of_def)
  from receive_pkg_queue [OF r]
  have d2: "ex_done st2 = ex_done st"
    and q2: "queue_of env st = (case received of None \<Rightarrow> [] | Some pkg \<Rightarrow> [pkg]) @ queue_of env st2"
    by (simp_all only: q0) simp_all
  let ?st3 = "st2\<lparr>ex_iteration := ex_iteration st2 + 1\<rparr>"
  have q3: "queue_of env ?st3 = queue_of env st2" by (simp add: queue_of_def)
  show ?thesis
  proof (cases received)
    case None
    with assms u r have "st1 = ?st3" by (simp add: executor_step_def)
    with None q2 d2 show ?thesis by (simp add: queue_of_def)
  next
    case (Some pkg)
    show ?thesis
    proof (cases "pkg_cmd pkg = Shutdown")
      case True
      with assms u r Some have "st1 = ?st3\<lparr>ex_done := True\<rparr>" by (simp add: executor_step_def)
      with Some q2 True show ?thesis by (simp add: queue_of_def shutdown_count_def)
    next
      case False
      with assms u r Some have "handle_command_pkg env pkg ?st3 = Inr st1" by (simp add: executor_step_def)
      from handle_command_pkg_keeps [OF this] Some q2 d2 show ?thesis
        by (simp add: queue_of_def)
    qed
  qed
qed

lemma executor_loop_exit:
  assumes "executor_loop env st = Some (Inr st1)"
  shows "ex_done st1 \<and> ex_jobs st1 = []
     \<and> (\<exists>taken. queue_of env st = taken @ queue_of env st1 \<and> (ex_done st \<or> 0 < shutdown_count taken))"
proof -
  define P where "P = (\<lambda>(env :: ('a, 'b) executor_env) (st :: ('a, 'b) executor_state)
     (y :: fault + ('a, 'b) executor_state).
     \<forall>st1. y = Inr st1 \<longrightarrow> ex_done st1 \<and> ex_jobs st1 = []
       \<and> (\<exists>taken. queue_of env st = taken @ queue_of env st1 \<and> (ex_done st \<or> 0 < shutdown_count taken)))"
  have "P env st (Inr st1)"
  proof (rule executor_loop.raw_induct [where P = P, OF _ assms])
    fix loop :: "('a, 'b) executor_env \<Rightarrow> ('a, 'b) executor_state \<Rightarrow> (fault + ('a, 'b) executor_state) option"
    fix env st y
    assume IH: "\<And>env st y. loop env st = Some y \<Longrightarrow> P env st y"
    assume eq: "(if \<not> ex_done st \<or> ex_jobs st \<noteq> []
        then case executor_step env st of Inl e \<Rightarrow> Some (Inl e) | Inr st1 \<Rightarrow> loop env st1
        else Some (Inr st)) = Some y"
    show "P env st y"
    proof (cases "\<not> ex_done st \<or> ex_jobs st \<noteq> []")
      case False
      with eq have "y = Inr st" by auto
      with False show ?thesis by (auto simp add: P_def)
    next
      case True
      show ?thesis
      proof (cases "executor_step env st")
        case (Inl e)
        with True eq have "y = Inl e" by auto
        then show ?thesis by (simp add: P_def)
      next
        case (Inr st2)
        with True eq have l: "loop env st2 = Some y" by simp
        from executor_step_queue [OF Inr] obtain t1 where
          t1: "queue_of env st = t1 @ queue_of env st2" "ex_done st2 \<longrightarrow> ex_done st \<or> 0 < shutdown_count t1"
          by blast
        have "ex_done st3 \<and> ex_jobs st3 = []
             \<and> (\<exists>taken. queue_of env st = taken @ queue_of env st3 \<and> (ex_done st \<or> 0 < shutdown_count taken))"
          if y: "y = Inr st3" for st3
        proof -
          from IH [OF l] y obtain t2 where
            a: "ex_done st3" "ex_jobs st3 = []" and
            t2: "queue_of env st2 = t2 @ queue_of env st3" "ex_done st2 \<or> 0 < shutdown_count t2"
            unfolding P_def by blast
          have "queue_of env st = (t1 @ t2) @ queue_of env st3" using t1(1) t2(1) by simp
          moreover have "ex_done st \<or> 0 < shutdown_count (t1 @ t2)" using t1(2) t2(2) by auto
          ultimately show ?thesis using a by blast
        qed
        then show ?thesis unfolding P_def by blast
      qed
    qed
  qed
  then show ?thesis by (simp add: P_def)
qed

lemma shutdown_last_drains:
  assumes "cmds @ [sd] = taken @ rest" and "shutdown_count cmds = 0" and "0 < shutdown_count taken"
  shows "rest = []"
proof (rule ccontr)
  assume "rest \<noteq> []"
  then have "rest = butlast rest @ [last rest]" by simp
  with assms(1) have "cmds @ [sd] = (taken @ butlast rest) @ [last rest]" by simp
  then have "cmds = taken @ butlast rest" by (simp only: append1_eq_conv)
  with assms(2) have "shutdown_count taken = 0" by simp
  with assms(3) show False by simp
qed


lemma queue_of_executor_start:
  "(is_master env \<longleftrightarrow> n = 0) \<Longrightarrow> queue_of env (executor_start n d jobs w) = received_by n d"
  by (simp add: queue_of_def executor_start_def received_by_def)

text \<open>The run of node 1 in the example: five iterations.\<close>

lemma example_start:
  "executor_start 1 (run_dispatch 4 3 example_visited) [] () =
     \<lparr>ex_done = False, ex_jobs = [], ex_master_commands = [],
      ex_inbox = [\<lparr>pkg_tid = 1, pkg_cid = 2, pkg_cmd = Compute, pkg_data = No_data\<rparr>,
                  \<lparr>pkg_tid = 1, pkg_cid = 3, pkg_cmd = Await_push, pkg_data = No_data\<rparr>,
                  \<lparr>pkg_tid = 0, pkg_cid = 4, pkg_cmd = Shutdown, pkg_data = No_data\<rparr>],
      ex_world = (), ex_iteration = 0\<rparr>"
proof -
  have "delivered 1 (run_dispatch 4 3 example_visited) = task_commands_for 1 example_visited @ [shutdown_pkg 4]"
    using received_by_run_dispatch [of 1 3 4 example_visited] by (simp add: received_by_def)
  then show ?thesis
    by (simp add: executor_start_def task_commands_for_def example_visited_def pkg_of_def shutdown_pkg_def)
qed

lemma example_run:
  "executor_loop (example_env False) (executor_start 1 (run_dispatch 4 3 example_visited) [] ()) =
     Some (Inr \<lparr>ex_done = True, ex_jobs = [], ex_master_commands = [], ex_inbox = [],
                ex_world = (), ex_iteration = 5\<rparr>)"
  unfolding example_start
  by (simp add: executor_loop.simps executor_step_def receive_pkg_def handle_command_pkg_def
      example_env_def Let_def)


text \<open>
  Claim C7. Let the walk visit no shutdown command (the graph generator creates none),
  and let \<open>n\<close> be a node, the master when \<open>n = 0\<close>. What node \<open>n\<close> receives from the dispatch
  is its task commands, in the order of the walk, followed by one shutdown command: it
  receives exactly one shutdown, after all its other commands. And whenever the executor
  loop of node \<open>n\<close>, entered with any jobs, returns, then \<open>done\<close> is set, the list of jobs is
  empty, and the node has received every command sent to it, the shutdown included:
  the loop does not return earlier. (\<open>executor_loop_exit\<close> above is the same for any
  state in which the loop is entered: on return \<open>done\<close> is set and the jobs are empty, and
  if \<open>done\<close> was not set, a shutdown is among the commands received meanwhile.)
\<close>

theorem shutdown_drain:
  assumes "list_all (\<lambda>v. v_cmd v \<noteq> Shutdown) visited"
    and "n < num_nodes"
    and "is_master env \<longleftrightarrow> n = 0"
  shows "(\<exists>cid. received_by n (run_dispatch c num_nodes visited) = task_commands_for n visited @ [shutdown_pkg cid])
     \<and> shutdown_count (received_by n (run_dispatch c num_nodes visited)) = 1
     \<and> (\<forall>jobs w st.
          executor_loop env (executor_start n (run_dispatch c num_nodes visited) jobs w) = Some (Inr st)
          \<longrightarrow> ex_done st \<and> ex_jobs st = [] \<and> queue_of env st = [])"
proof -
  let ?d = "run_dispatch c num_nodes visited"
  let ?cid = "c + (if n = 0 then num_nodes - 1 else n - 1)"
  have r: "received_by n ?d = task_commands_for n visited @ [shutdown_pkg ?cid]"
    by (rule received_by_run_dispatch [OF assms(2)])
  have none: "shutdown_count (task_commands_for n visited) = 0"
    by (rule shutdown_count_task_commands [OF assms(1)])
  have one: "shutdown_count (received_by n ?d) = 1"
    unfolding r by (simp add: none)
  have drain: "ex_done st \<and> ex_jobs st = [] \<and> queue_of env st = []"
    if run: "executor_loop env (executor_start n ?d jobs w) = Some (Inr st)" for jobs :: "'a list" and w :: 'b and st
  proof -
    from executor_loop_exit [OF run] obtain taken where
      a: "ex_done st" "ex_jobs st = []" and
      q: "queue_of env (executor_start n ?d jobs w) = taken @ queue_of env st" and
      t: "ex_done (executor_start n ?d jobs w) \<or> 0 < shutdown_count taken"
      by blast
    have "\<not> ex_done (executor_start n ?d jobs w)" by (simp add: executor_start_def)
    with t have t': "0 < shutdown_count taken" by simp
    have "task_commands_for n visited @ [shutdown_pkg ?cid] = taken @ queue_of env st"
      using q queue_of_executor_start [OF assms(3), of ?d jobs w] r by simp
    from shutdown_last_drains [OF this none t'] a show ?thesis by simp
  qed
  from r one drain show ?thesis by blast
qed

theorem shutdown_drain_witness:
  "received_by 1 (run_dispatch 4 3 example_visited) =
       [\<lparr>pkg_tid = 1, pkg_cid = 2, pkg_cmd = Compute, pkg_data = No_data\<rparr>,
        \<lparr>pkg_tid = 1, pkg_cid = 3, pkg_cmd = Await_push, pkg_data = No_data\<rparr>,
        \<lparr>pkg_tid = 0, pkg_cid = 4, pkg_cmd = Shutdown, pkg_data = No_data\<rparr>]
   \<and> shutdown_count (received_by 1 (run_dispatch 4 3 example_visited)) = 1
   \<and> (\<exists>st. executor_loop (example_env False) (executor_start 1 (run_dispatch 4 3 example_visited) [] ())
             = Some (Inr st)
         \<and> ex_done st \<and> ex_jobs st = [] \<and> queue_of (example_env False) st = [])"
proof -
  have v: "list_all (\<lambda>v. v_cmd v \<noteq> Shutdown) example_visited"
    by (simp add: example_visited_def)
  have m: "is_master (example_env False) \<longleftrightarrow> (1 :: nat) = 0"
    by (simp add: example_env_def)
  have lt: "(1 :: nat) < 3" by simp
  note T = shutdown_drain [OF v lt m, of 4]
  from T obtain cid where
    r: "received_by 1 (run_dispatch 4 3 example_visited) = task_commands_for 1 example_visited @ [shutdown_pkg cid]"
    by blast
  have s: "ex_inbox (executor_start 1 (run_dispatch 4 3 example_visited) [] ()) =
      received_by 1 (run_dispatch 4 3 example_visited)"
    by (simp add: executor_start_def received_by_def)
  have c: "cid = 4" using r s unfolding example_start by (simp add: shutdown_pkg_def)
  have r': "received_by 1 (run_dispatch 4 3 example_visited) =
       [\<lparr>pkg_tid = 1, pkg_cid = 2, pkg_cmd = Compute, pkg_data = No_data\<rparr>,
        \<lparr>pkg_tid = 1, pkg_cid = 3, pkg_cmd = Await_push, pkg_data = No_data\<rparr>,
        \<lparr>pkg_tid = 0, pkg_cid = 4, pkg_cmd = Shutdown, pkg_data = No_data\<rparr>]"
    unfolding r c by (simp add: task_commands_for_def example_visited_def pkg_of_def shutdown_pkg_def)
  have one: "shutdown_count (received_by 1 (run_dispatch 4 3 example_visited)) = 1"
    using T by (rule conjunct2 [THEN conjunct1])
  have "ex_done st \<and> ex_jobs st = [] \<and> queue_of (example_env False) st = []"
    if "st = \<lparr>ex_done = True, ex_jobs = [], ex_master_commands = [], ex_inbox = [],
                ex_world = (), ex_iteration = 5\<rparr>" for st :: "(nat, unit) executor_state"
    using T [THEN conjunct2, THEN conjunct2, rule_format, of "[]" "()" st] example_run that by simp
  with example_run r' one show ?thesis by blast
qed

end
